theory Spec2Isabelle
  imports Complex_Main
begin

section \<open>The stale-branch cleaner of \<^verbatim>\<open>src/lib/cleaner.js\<close>\<close>

text \<open>
  The development embeds \<^verbatim>\<open>runCleaner\<close> and its inner functions
  \<^verbatim>\<open>getBranches\<close>, \<^verbatim>\<open>isBranchStale\<close> and \<^verbatim>\<open>deleteBranch\<close>.
  Everything outside the program is a parameter:
  \<^item> \<open>parseDate\<close>: the time value in milliseconds that the runtime's \<^verbatim>\<open>new Date(s).getTime()\<close>
    gives for a string, \<open>None\<close> for an invalid date (whose time value is NaN);
  \<^item> \<open>clock\<close>: the time value that the \<open>k\<close>-th call of \<^verbatim>\<open>Date.now()\<close> returns;
  \<^item> \<open>api_get\<close>: the host's answer to the request for a page of branches, given the
    page size and the page number;
  \<^item> \<open>api_delete\<close>: the host's answer to the \<open>k\<close>-th delete request, for a branch name.
  Console output is not modelled, so the \<^verbatim>\<open>json\<close> flag and the error classifier
  \<^verbatim>\<open>formatGitLabError\<close>, which only feed the console, are left out.
\<close>

subsection \<open>Numbers\<close>

text \<open>
  A number of the program is a double: NaN, an infinity or a finite value, which is a
  rational. The two zeros are not told apart, since the program only compares numbers.
\<close>

datatype jsnum = NaN | Num rat | PosInf | NegInf

text \<open>The comparison \<^verbatim>\<open>a > b\<close>: false as soon as one side is NaN.\<close>

fun js_gt :: "jsnum \<Rightarrow> jsnum \<Rightarrow> bool" where
  "js_gt (Num a) (Num b) = (b < a)"
| "js_gt (Num a) NegInf = True"
| "js_gt PosInf (Num b) = True"
| "js_gt PosInf NegInf = True"
| "js_gt _ _ = False"

text \<open>
  The arithmetic of the program rounds every exact result to the nearest double, ties to
  the even significand. \<open>ilog2 q\<close> is the exponent of a positive \<open>q\<close>, the integer \<open>k\<close> with
  \<open>2 powi k \<le> q < 2 powi (k + 1)\<close>.
\<close>

function ilog2 :: "rat \<Rightarrow> int" where
  "ilog2 q =
     (if q \<le> 0 then 0
      else if 2 \<le> q then ilog2 (q / 2) + 1
      else if q < 1 then ilog2 (q * 2) - 1
      else 0)"
  by pat_completeness auto
termination
proof (relation "measure (\<lambda>q. if 1 \<le> q then nat \<lfloor>q\<rfloor> else nat \<lceil>1 / q\<rceil>)")
  show "wf (measure (\<lambda>q::rat. if 1 \<le> q then nat \<lfloor>q\<rfloor> else nat \<lceil>1 / q\<rceil>))" by simp
next
  fix q :: rat
  assume "\<not> q \<le> 0" and big: "2 \<le> q"
  have "\<lfloor>q / 2\<rfloor> \<le> \<lfloor>q - 1\<rfloor>"
    using big by (intro floor_mono) simp
  then have "\<lfloor>q / 2\<rfloor> < \<lfloor>q\<rfloor>" by simp
  moreover have "0 \<le> \<lfloor>q / 2\<rfloor>" using big by simp
  ultimately show "(q / 2, q) \<in> measure (\<lambda>q. if 1 \<le> q then nat \<lfloor>q\<rfloor> else nat \<lceil>1 / q\<rceil>)"
    using big by simp
next
  fix q :: rat
  assume pos: "\<not> q \<le> 0" and "\<not> 2 \<le> q" and small: "q < 1"
  have inv: "1 < 1 / q" using pos small by simp
  show "(q * 2, q) \<in> measure (\<lambda>q. if 1 \<le> q then nat \<lfloor>q\<rfloor> else nat \<lceil>1 / q\<rceil>)"
  proof (cases "1 \<le> q * 2")
    case True
    have "\<lfloor>q * 2\<rfloor> < 2" using small by (simp add: floor_less_iff)
    moreover have "1 < \<lceil>1 / q\<rceil>" using inv by (simp add: less_ceiling_iff)
    moreover have "0 \<le> \<lfloor>q * 2\<rfloor>" using True by simp
    ultimately have "nat \<lfloor>q * 2\<rfloor> < nat \<lceil>1 / q\<rceil>" by linarith
    then show ?thesis using True small by simp
  next
    case False
    then have "2 < 1 / q" using pos by (simp add: field_simps)
    then have "1 / (q * 2) \<le> 1 / q - 1" by (simp add: field_simps)
    then have "\<lceil>1 / (q * 2)\<rceil> \<le> \<lceil>1 / q - 1\<rceil>" by (rule ceiling_mono)
    then have "\<lceil>1 / (q * 2)\<rceil> < \<lceil>1 / q\<rceil>" by simp
    moreover have "0 < \<lceil>1 / q\<rceil>" using inv pos by (simp add: less_ceiling_iff)
    ultimately show ?thesis using False small by simp
  qed
qed

declare ilog2.simps [simp del]

text \<open>The nearest integer, the even one of the two when \<open>x\<close> is half way between them.\<close>

definition round_half_even :: "rat \<Rightarrow> int" where
  "round_half_even x =
     (if x - of_int \<lfloor>x\<rfloor> < 1 / 2 then \<lfloor>x\<rfloor>
      else if 1 / 2 < x - of_int \<lfloor>x\<rfloor> then \<lfloor>x\<rfloor> + 1
      else if even \<lfloor>x\<rfloor> then \<lfloor>x\<rfloor> else \<lfloor>x\<rfloor> + 1)"

text \<open>
  The double that an exact result \<open>q\<close> rounds to. A double has a significand of 53 bits, so
  the doubles near \<open>q\<close> are the multiples of \<open>2 powi (ilog2 \<bar>q\<bar> - 52)\<close>, and of
  \<open>2 powi (- 1074)\<close> in the subnormal range; a rounded value of magnitude \<open>2 ^ 1024\<close> is
  an overflow, whose result is an infinity.
\<close>

definition round_double :: "rat \<Rightarrow> jsnum" where
  "round_double q =
     (if q = 0 then Num 0
      else
        (let e = max (ilog2 \<bar>q\<bar> - 52) (- 1074);
             r = of_int (round_half_even (q / 2 powi e)) * 2 powi e
         in if 2 ^ 1024 \<le> \<bar>r\<bar> then (if 0 < q then PosInf else NegInf) else Num r))"

text \<open>The subtraction \<^verbatim>\<open>a - b\<close>.\<close>

fun js_minus :: "jsnum \<Rightarrow> jsnum \<Rightarrow> jsnum" where
  "js_minus (Num a) (Num b) = round_double (a - b)"
| "js_minus (Num a) PosInf = NegInf"
| "js_minus (Num a) NegInf = PosInf"
| "js_minus PosInf (Num b) = PosInf"
| "js_minus PosInf NegInf = PosInf"
| "js_minus NegInf (Num b) = NegInf"
| "js_minus NegInf PosInf = NegInf"
| "js_minus _ _ = NaN"

text \<open>
  For the statements about rounding: the finite doubles, which are the integers of less
  than 53 bits scaled by a power of two in the range of the format.
\<close>

definition is_double :: "rat \<Rightarrow> bool" where
  "is_double r \<longleftrightarrow>
     (\<exists>m e. \<bar>m\<bar> < 2 ^ 53 \<and> - 1074 \<le> e \<and> e \<le> 971 \<and> r = of_int m * 2 powi e)"

subsection \<open>Data\<close>

text \<open>
  A branch as the host returns it: \<^verbatim>\<open>name\<close>, \<^verbatim>\<open>protected\<close> and
  \<^verbatim>\<open>commit.committed_date\<close>, the only fields the program reads.
\<close>

record commit_info =
  committed_date :: string

record branch =
  name :: string
  protected :: bool
  commit :: commit_info

text \<open>
  The parameters of \<^verbatim>\<open>runCleaner\<close>. \<open>staleDays\<close> holds the value of
  \<^verbatim>\<open>Number(staleDays)\<close>.
\<close>

record config =
  projectId :: string
  mainBranch :: string
  staleDays :: jsnum
  dryRun :: bool
  excludedBranches :: "string list"

subsection \<open>Staleness\<close>

text \<open>
  \<^verbatim>\<open>new Date(s).getTime()\<close>: the time value, or NaN for an invalid date. A time value is
  an integer of milliseconds of magnitude at most 8640000000000000, which a double holds
  exactly; the runtime makes a date out of this range invalid.
\<close>

definition getTime :: "(string \<Rightarrow> int option) \<Rightarrow> string \<Rightarrow> jsnum" where
  "getTime parseDate s =
     (case parseDate s of
        None \<Rightarrow> NaN
      | Some t \<Rightarrow> if \<bar>t\<bar> \<le> 8640000000000000 then Num (of_int t) else NaN)"

text \<open>
  \<^verbatim>\<open>(Date.now() - updatedAt.getTime()) / (1000 * 60 * 60 * 24)\<close>, with \<open>now\<close> the time
  value that \<^verbatim>\<open>Date.now()\<close> returned: a subtraction and then a division, each rounded to
  a double. The divisor is a product of small integers, which is exact.
\<close>

definition daysSinceLastUpdate :: "(string \<Rightarrow> int option) \<Rightarrow> int \<Rightarrow> branch \<Rightarrow> jsnum" where
  "daysSinceLastUpdate parseDate now b =
     (case js_minus (Num (of_int now)) (getTime parseDate (committed_date (commit b))) of
        NaN \<Rightarrow> NaN
      | Num elapsed \<Rightarrow> round_double (elapsed / (1000 * 60 * 60 * 24))
      | PosInf \<Rightarrow> PosInf
      | NegInf \<Rightarrow> NegInf)"

definition isBranchStale :: "(string \<Rightarrow> int option) \<Rightarrow> config \<Rightarrow> int \<Rightarrow> branch \<Rightarrow> bool" where
  "isBranchStale parseDate cfg now b =
     js_gt (daysSinceLastUpdate parseDate now b) (staleDays cfg)"

text \<open>
  The filter that computes \<^verbatim>\<open>staleBranches\<close>. The conjunction of the source
  short-circuits, so \<^verbatim>\<open>isBranchStale\<close> runs, and reads the clock, only for a branch
  that is neither the main branch nor protected; \<open>k\<close> counts the clock readings made
  so far.
\<close>

fun staleBranches ::
  "(string \<Rightarrow> int option) \<Rightarrow> (nat \<Rightarrow> int) \<Rightarrow> config \<Rightarrow> nat \<Rightarrow> branch list \<Rightarrow> branch list" where
  "staleBranches parseDate clock cfg k [] = []"
| "staleBranches parseDate clock cfg k (b # bs) =
     (if name b \<noteq> mainBranch cfg \<and> \<not> protected b then
        (if isBranchStale parseDate cfg (clock k) b \<and> name b \<notin> set (excludedBranches cfg)
         then b # staleBranches parseDate clock cfg (Suc k) bs
         else staleBranches parseDate clock cfg (Suc k) bs)
      else staleBranches parseDate clock cfg k bs)"

text \<open>The number of clock readings that the filter makes on a list of branches.\<close>

definition clockReads :: "config \<Rightarrow> branch list \<Rightarrow> nat" where
  "clockReads cfg bs = length (filter (\<lambda>b. name b \<noteq> mainBranch cfg \<and> \<not> protected b) bs)"

subsection \<open>Listing the branches\<close>

datatype http_error = NoResponse | Status nat

definition perPage :: nat where
  "perPage = 100"

text \<open>
  The loop of \<^verbatim>\<open>getBranches\<close>. A request carries the parameters \<^verbatim>\<open>per_page\<close> and
  \<^verbatim>\<open>page\<close>, and the host answers it with an error or with a list of branches. The loop
  has no bound on the number of pages, so it is a partial function: \<open>None\<close> is the run
  that never leaves the loop. A returned value pairs the outcome (\<open>Inl\<close> the message of the
  error thrown from the catch block, \<open>Inr\<close> the branches) with the requests made, in order,
  each as the pair of its \<^verbatim>\<open>per_page\<close> and \<^verbatim>\<open>page\<close>.
\<close>

partial_function (option) getBranches_loop ::
  "(nat \<Rightarrow> nat \<Rightarrow> http_error + branch list) \<Rightarrow> branch list \<Rightarrow> nat \<Rightarrow> (nat \<times> nat) list
     \<Rightarrow> ((string + branch list) \<times> (nat \<times> nat) list) option" where
  "getBranches_loop api_get branches page requested =
     (case api_get perPage page of
        Inl err \<Rightarrow>
          Some (Inl ''Failed to fetch branches from GitLab.'', requested @ [(perPage, page)])
      | Inr data \<Rightarrow>
          (if length data < perPage
           then Some (Inr (branches @ data), requested @ [(perPage, page)])
           else getBranches_loop api_get (branches @ data) (page + 1)
                  (requested @ [(perPage, page)])))"

definition getBranches ::
  "(nat \<Rightarrow> nat \<Rightarrow> http_error + branch list)
     \<Rightarrow> ((string + branch list) \<times> (nat \<times> nat) list) option" where
  "getBranches api_get = getBranches_loop api_get [] 1 []"

text \<open>The items of the answer to the request for a page; none when the answer is an error.\<close>

definition pageItems :: "(nat \<Rightarrow> nat \<Rightarrow> http_error + branch list) \<Rightarrow> nat \<Rightarrow> branch list" where
  "pageItems api_get page = (case api_get perPage page of Inl err \<Rightarrow> [] | Inr data \<Rightarrow> data)"

text \<open>
  The test of the loop for going on to the next page: the request succeeded and the page
  fails the test \<^verbatim>\<open>data.length < perPage\<close>.
\<close>

definition fullPage :: "(nat \<Rightarrow> nat \<Rightarrow> http_error + branch list) \<Rightarrow> nat \<Rightarrow> bool" where
  "fullPage api_get page =
     (case api_get perPage page of Inl err \<Rightarrow> False | Inr data \<Rightarrow> \<not> length data < perPage)"

subsection \<open>The result and the state of a run\<close>

text \<open>
  The \<^verbatim>\<open>result\<close> object. Its fields \<^verbatim>\<open>projectId\<close>, \<^verbatim>\<open>dryRun\<close> and
  \<^verbatim>\<open>excludedBranches\<close> are copies of the parameters that nothing writes after the
  initialisation; they stay in \<open>config\<close>.
\<close>

record run_result =
  branchesScanned :: nat
  branchesEligible :: nat
  branchesDeleted :: nat
  branchesFailed :: nat
  failedBranches :: "string list"
  success :: bool

text \<open>
  The mutable variables of \<^verbatim>\<open>runCleaner\<close>, and the delete requests sent to the host so
  far, in order.
\<close>

record cleaner_state =
  result :: run_result
  deletedCount :: nat
  failedCount :: nat
  deleteCalls :: "string list"

definition initial :: cleaner_state where
  "initial =
     \<lparr>result = \<lparr>branchesScanned = 0, branchesEligible = 0, branchesDeleted = 0,
                 branchesFailed = 0, failedBranches = [], success = True\<rparr>,
      deletedCount = 0, failedCount = 0, deleteCalls = []\<rparr>"

subsection \<open>Deleting\<close>

definition deleteBranch ::
  "config \<Rightarrow> (nat \<Rightarrow> string \<Rightarrow> http_error + unit) \<Rightarrow> string \<Rightarrow> cleaner_state \<Rightarrow> cleaner_state" where
  "deleteBranch cfg api_delete branchName st =
     (if dryRun cfg then st
      else
        (case api_delete (length (deleteCalls st)) branchName of
           Inr ok \<Rightarrow>
             st\<lparr>deleteCalls := deleteCalls st @ [branchName],
                deletedCount := deletedCount st + 1,
                result := (result st)\<lparr>branchesDeleted := branchesDeleted (result st) + 1\<rparr>\<rparr>
         | Inl err \<Rightarrow>
             st\<lparr>deleteCalls := deleteCalls st @ [branchName],
                failedCount := failedCount st + 1,
                result := (result st)
                  \<lparr>branchesFailed := branchesFailed (result st) + 1,
                   failedBranches := failedBranches (result st) @ [branchName],
                   success := False\<rparr>\<rparr>))"

text \<open>The loop \<^verbatim>\<open>for (const branch of staleBranches) await deleteBranch(branch.name)\<close>.\<close>

fun deleteLoop ::
  "config \<Rightarrow> (nat \<Rightarrow> string \<Rightarrow> http_error + unit) \<Rightarrow> branch list \<Rightarrow> cleaner_state \<Rightarrow> cleaner_state" where
  "deleteLoop cfg api_delete [] st = st"
| "deleteLoop cfg api_delete (b # bs) st =
     deleteLoop cfg api_delete bs (deleteBranch cfg api_delete (name b) st)"

subsection \<open>The run\<close>

text \<open>
  What a run leaves behind: the final state, the pages requested, and the exit code
  (\<open>Some 2\<close> for \<^verbatim>\<open>process.exit(2)\<close>, \<open>None\<close> when \<^verbatim>\<open>runCleaner\<close> returns to its
  caller).
\<close>

record run_outcome =
  final :: cleaner_state
  pagesRequested :: "(nat \<times> nat) list"
  exitCode :: "nat option"

definition runCleaner ::
  "(string \<Rightarrow> int option) \<Rightarrow> (nat \<Rightarrow> int) \<Rightarrow> (nat \<Rightarrow> nat \<Rightarrow> http_error + branch list)
     \<Rightarrow> (nat \<Rightarrow> string \<Rightarrow> http_error + unit) \<Rightarrow> config \<Rightarrow> run_outcome option" where
  "runCleaner parseDate clock api_get api_delete cfg =
     (case getBranches api_get of
        None \<Rightarrow> None
      | Some (Inl msg, requested) \<Rightarrow>
          Some \<lparr>final = initial\<lparr>result := (result initial)\<lparr>success := False\<rparr>\<rparr>,
                pagesRequested = requested, exitCode = Some 2\<rparr>
      | Some (Inr branches, requested) \<Rightarrow>
          (let st1 = initial\<lparr>result := (result initial)\<lparr>branchesScanned := length branches\<rparr>\<rparr>;
               stale = staleBranches parseDate clock cfg 0 branches;
               st2 = st1\<lparr>result := (result st1)\<lparr>branchesEligible := length stale\<rparr>\<rparr>;
               st3 = deleteLoop cfg api_delete stale st2
           in Some \<lparr>final = st3, pagesRequested = requested,
                    exitCode = (if 0 < failedCount st3 then Some 2 else None)\<rparr>))"

text \<open>
  For the statements about the deletion loop: the names, among \<open>names\<close>, whose delete request
  the host answers with an error, in order, when the first of the requests is the \<open>k\<close>-th.
\<close>

definition failedNames :: "(nat \<Rightarrow> string \<Rightarrow> http_error + unit) \<Rightarrow> nat \<Rightarrow> string list \<Rightarrow> string list" where
  "failedNames api_delete k names =
     map snd (filter (\<lambda>(i, n). isl (api_delete i n)) (zip [k..<k + length names] names))"

section \<open>Properties of the rounding\<close>

lemma ilog2_bounds: "0 < q \<Longrightarrow> 2 powi ilog2 q \<le> q \<and> q < 2 powi (ilog2 q + 1)"
proof (induction q rule: ilog2.induct)
  case (1 q)
  show ?case
  proof (cases "2 \<le> q")
    case True
    with "1.prems" have eq: "ilog2 q = ilog2 (q / 2) + 1"
      by (subst ilog2.simps) simp
    from "1.IH"(1) True "1.prems" have "2 powi ilog2 (q / 2) \<le> q / 2 \<and> q / 2 < 2 powi (ilog2 (q / 2) + 1)"
      by simp
    then show ?thesis
      by (simp add: eq power_int_add)
  next
    case False
    show ?thesis
    proof (cases "q < 1")
      case True
      with False "1.prems" have eq: "ilog2 q = ilog2 (q * 2) - 1"
        by (subst ilog2.simps) simp
      from "1.IH"(2) True False "1.prems" have "2 powi ilog2 (q * 2) \<le> q * 2 \<and> q * 2 < 2 powi (ilog2 (q * 2) + 1)"
        by simp
      then show ?thesis
        by (simp add: eq power_int_add power_int_diff)
    next
      case ge: False
      with False "1.prems" have "ilog2 q = 0"
        by (subst ilog2.simps) simp
      with ge False show ?thesis by simp
    qed
  qed
qed

lemma round_half_even_nearest: "\<bar>of_int (round_half_even x) - x\<bar> \<le> \<bar>of_int k - x\<bar>"
proof -
  define F :: rat where "F = of_int \<lfloor>x\<rfloor>"
  define R :: rat where "R = of_int (round_half_even x)"
  define K :: rat where "K = of_int k"
  have fl: "F \<le> x" "x < F + 1"
    unfolding F_def by linarith+
  have r: "R = F \<and> x - F \<le> 1 / 2 \<or> R = F + 1 \<and> 1 / 2 \<le> x - F"
    unfolding R_def F_def by (simp add: round_half_even_def)
  have "k \<le> \<lfloor>x\<rfloor> \<or> \<lfloor>x\<rfloor> + 1 \<le> k" by linarith
  then have k: "K \<le> F \<or> F + 1 \<le> K"
    unfolding K_def F_def by (metis of_int_1 of_int_add of_int_le_iff)
  from fl r k have "\<bar>R - x\<bar> \<le> \<bar>K - x\<bar>" by linarith
  then show ?thesis by (simp add: R_def K_def)
qed

lemma nearest_multiple:
  fixes u q :: rat
  assumes "0 < u"
  shows "\<bar>of_int (round_half_even (q / u)) * u - q\<bar> \<le> \<bar>of_int k * u - q\<bar>"
proof -
  have "\<bar>of_int (round_half_even (q / u)) - q / u\<bar> * u \<le> \<bar>of_int k - q / u\<bar> * u"
    using assms round_half_even_nearest [of "q / u" k] by (simp add: mult_right_mono)
  moreover have "\<bar>of_int j - q / u\<bar> * u = \<bar>of_int j * u - q\<bar>" for j :: int
  proof -
    have "\<bar>of_int j - q / u\<bar> * u = \<bar>(of_int j - q / u) * u\<bar>"
      using assms by (simp add: abs_mult)
    also have "(of_int j - q / u) * u = of_int j * u - q"
      using assms by (simp add: field_simps)
    finally show ?thesis .
  qed
  ultimately show ?thesis by simp
qed

lemma round_double_cases:
  assumes "round_double q = Num a"
  shows "q = 0 \<and> a = 0 \<or>
         q \<noteq> 0 \<and> a = of_int (round_half_even (q / 2 powi max (ilog2 \<bar>q\<bar> - 52) (- 1074)))
                          * 2 powi max (ilog2 \<bar>q\<bar> - 52) (- 1074)"
  using assms by (auto simp: round_double_def Let_def split: if_splits)

text \<open>The rounded value is at least as near to the exact one as any double.\<close>

lemma round_double_nearest:
  assumes "round_double q = Num a" and "is_double r"
  shows "\<bar>a - q\<bar> \<le> \<bar>r - q\<bar>"
proof (cases "q = 0")
  case True
  with assms(1) show ?thesis by (simp add: round_double_def)
next
  case False
  define e where "e = max (ilog2 \<bar>q\<bar> - 52) (- 1074)"
  define u :: rat where "u = 2 powi e"
  have u: "0 < u" by (simp add: u_def)
  have a: "a = of_int (round_half_even (q / u)) * u"
    using round_double_cases [OF assms(1)] False by (simp add: e_def u_def)
  from assms(2) obtain m e' where m: "\<bar>m\<bar> < 2 ^ 53" and e': "- 1074 \<le> e'"
    and r: "r = of_int m * 2 powi e'"
    by (auto simp: is_double_def)
  show ?thesis
  proof (cases "e \<le> e'")
    case True
    have "(2::rat) powi e' = 2 powi (e' - e) * 2 powi e"
      by (simp add: power_int_add [symmetric])
    also have "(2::rat) powi (e' - e) = 2 ^ nat (e' - e)"
      using True by (simp add: power_int_nonneg_exp)
    finally have "r = of_int (m * 2 ^ nat (e' - e)) * u"
      by (simp add: r u_def)
    then show ?thesis
      using nearest_multiple [OF u, of q "m * 2 ^ nat (e' - e)"] by (simp add: a)
  next
    case below: False
    then have e: "e = ilog2 \<bar>q\<bar> - 52" and lt: "e' \<le> e - 1"
      using e' by (auto simp: e_def)
    have "2 powi ilog2 \<bar>q\<bar> \<le> \<bar>q\<bar>"
      using ilog2_bounds [of "\<bar>q\<bar>"] False by simp
    moreover have "(2::rat) powi ilog2 \<bar>q\<bar> = 2 ^ 52 * u"
      by (simp add: u_def e power_int_diff)
    ultimately have big: "2 ^ 52 * u \<le> \<bar>q\<bar>" by simp
    have "(2::rat) powi e' \<le> 2 powi (e - 1)"
      using lt by (intro power_int_increasing) simp_all
    also have "(2::rat) powi (e - 1) = u / 2"
      by (simp add: u_def power_int_diff)
    finally have "2 powi e' \<le> u / 2" .
    moreover have "\<bar>r\<bar> = of_int \<bar>m\<bar> * 2 powi e'"
      by (simp add: r abs_mult)
    moreover have "(of_int \<bar>m\<bar> :: rat) < 2 ^ 53"
      using m by (metis of_int_less_iff of_int_numeral of_int_power)
    ultimately have small: "\<bar>r\<bar> < 2 ^ 52 * u"
    proof -
      have "(of_int \<bar>m\<bar> :: rat) * 2 powi e' \<le> of_int \<bar>m\<bar> * (u / 2)"
        using \<open>2 powi e' \<le> u / 2\<close> by (rule mult_left_mono) simp
      then have "\<bar>r\<bar> \<le> of_int \<bar>m\<bar> * (u / 2)"
        by (simp only: \<open>\<bar>r\<bar> = of_int \<bar>m\<bar> * 2 powi e'\<close>)
      also have "\<dots> < 2 ^ 53 * (u / 2)"
        using \<open>(of_int \<bar>m\<bar> :: rat) < 2 ^ 53\<close> u by (simp add: mult_strict_right_mono)
      finally show ?thesis by simp
    qed
    have near: "\<bar>a - q\<bar> \<le> \<bar>q\<bar> - 2 ^ 52 * u"
    proof (cases "0 < q")
      case True
      from nearest_multiple [OF u, of q "2 ^ 52"] have "\<bar>a - q\<bar> \<le> \<bar>2 ^ 52 * u - q\<bar>"
        by (simp add: a)
      with True big show ?thesis by simp
    next
      case neg: False
      from nearest_multiple [OF u, of q "- (2 ^ 52)"] have "\<bar>a - q\<bar> \<le> \<bar>- (2 ^ 52 * u) - q\<bar>"
        by (simp add: a)
      with neg big show ?thesis by simp
    qed
    have "\<bar>q\<bar> - \<bar>r\<bar> \<le> \<bar>r - q\<bar>" by simp
    with near small show ?thesis by linarith
  qed
qed

lemma round_double_finite:
  assumes "\<bar>q\<bar> < 2 ^ 1023"
  shows "\<exists>a. round_double q = Num a"
proof (cases "q = 0")
  case True
  then show ?thesis by (simp add: round_double_def)
next
  case False
  define u :: rat where "u = 2 powi max (ilog2 \<bar>q\<bar> - 52) (- 1074)"
  define r where "r = of_int (round_half_even (q / u)) * u"
  have "0 < u" by (simp add: u_def)
  from nearest_multiple [OF this, of q 0] have "\<bar>r - q\<bar> \<le> \<bar>q\<bar>"
    by (simp add: r_def)
  then have "\<bar>r\<bar> \<le> 2 * \<bar>q\<bar>" by linarith
  with assms have "\<bar>r\<bar> < 2 ^ 1024" by simp
  with False show ?thesis
    by (simp add: round_double_def Let_def r_def u_def)
qed

text \<open>A double rounds to itself.\<close>

lemma round_double_fixes:
  assumes "is_double r" and "\<bar>r\<bar> < 2 ^ 1023"
  shows "round_double r = Num r"
proof -
  from round_double_finite [OF assms(2)] obtain a where a: "round_double r = Num a" by blast
  from round_double_nearest [OF a assms(1)] have "a = r" by simp
  with a show ?thesis by simp
qed

lemma is_double_of_int: "\<bar>m\<bar> < 2 ^ 53 \<Longrightarrow> is_double (of_int m)"
  unfolding is_double_def by (intro exI [of _ m] exI [of _ 0]) simp

text \<open>
  Whole milliseconds divided by the milliseconds of a day, against a whole number of days:
  the rounding of the quotient never changes the outcome of the comparison, because the
  doubles around a whole number below \<open>2 ^ 27\<close> are closer to each other than two
  quotients are.
\<close>

lemma round_double_days_gt:
  fixes x :: int and N :: nat
  assumes x: "\<bar>x\<bar> < 2 ^ 53" and a: "round_double (of_int x / 86400000) = Num a"
  shows "of_nat N < a \<longleftrightarrow> int N * 86400000 < x"
proof
  assume stale: "of_nat N < a"
  show "int N * 86400000 < x"
  proof (rule ccontr)
    assume "\<not> int N * 86400000 < x"
    then have "x \<le> int N * 86400000" by simp
    then have "(of_int x :: rat) \<le> of_int (int N * 86400000)" by (simp only: of_int_le_iff)
    then have q: "(of_int x :: rat) / 86400000 \<le> of_nat N" by simp
    have "(of_int x :: rat) < 2 ^ 53"
      using x by (metis abs_less_iff of_int_less_iff of_int_numeral of_int_power)
    then have q': "(of_int x :: rat) / 86400000 \<le> 134217728" by simp
    define M :: nat where "M = min N 134217728"
    have "is_double (of_int (int M))"
      by (rule is_double_of_int) (simp add: M_def)
    then have "\<bar>a - of_int x / 86400000\<bar> \<le> \<bar>of_nat M - of_int x / 86400000\<bar>"
      using round_double_nearest [OF a] by simp
    moreover have "of_int x / 86400000 \<le> (of_nat M :: rat)"
      using q q' by (simp add: M_def min_def)
    moreover have "(of_nat M :: rat) \<le> of_nat N"
      by (simp add: M_def)
    ultimately show False using stale by linarith
  qed
next
  assume "int N * 86400000 < x"
  then have "int N * 86400000 + 1 \<le> x" by simp
  then have "(of_int (int N * 86400000 + 1) :: rat) \<le> of_int x" by (simp only: of_int_le_iff)
  then have q: "(of_nat N :: rat) + 1 / 86400000 \<le> of_int x / 86400000" by (simp add: field_simps)
  have "int N * 67108864 \<le> int N * 86400000" by simp
  also have "\<dots> < x" by fact
  also have "x < 2 ^ 53" using x by simp
  finally have N: "N < 134217728" by simp
  define r :: rat where "r = of_nat N + 1 / 67108864"
  have "r = of_int (int N * 67108864 + 1) * 2 powi (- 26)"
    by (simp add: r_def power_int_minus field_simps)
  moreover have "\<bar>int N * 67108864 + 1\<bar> < 2 ^ 53"
    using N by simp
  ultimately have "is_double r"
    unfolding is_double_def by (intro exI [of _ "int N * 67108864 + 1"] exI [of _ "- 26"]) simp
  from round_double_nearest [OF a this] have near: "\<bar>a - of_int x / 86400000\<bar> \<le> \<bar>r - of_int x / 86400000\<bar>" .
  show "of_nat N < a"
  proof (rule ccontr)
    assume "\<not> of_nat N < a"
    then have "a \<le> of_nat N" by simp
    with q near show False
      unfolding r_def by (simp add: abs_if split: if_splits)
  qed
qed

text \<open>An exact value that does not exceed a double does not round above it.\<close>

lemma round_double_le:
  assumes "round_double q = Num a" and "is_double r" and "q \<le> r"
  shows "a \<le> r"
  using round_double_nearest [OF assms(1,2)] assms(3) by linarith

section \<open>Properties of the staleness filter\<close>

lemma staleBranches_frozen_clock:
  "staleBranches parseDate (\<lambda>_. now) cfg k bs =
     filter (\<lambda>b. name b \<noteq> mainBranch cfg \<and> \<not> protected b
               \<and> isBranchStale parseDate cfg now b
               \<and> name b \<notin> set (excludedBranches cfg)) bs"
  by (induction bs arbitrary: k) simp_all

lemma staleBranches_member_stale:
  "b \<in> set (staleBranches parseDate clock cfg k bs) \<Longrightarrow>
     \<exists>i. isBranchStale parseDate cfg (clock i) b"
  by (induction bs arbitrary: k) (auto split: if_splits)

lemma daysSinceLastUpdate_valid:
  assumes "parseDate (committed_date (commit b)) = Some t" and "\<bar>t\<bar> \<le> 8640000000000000"
    and "\<bar>now - t\<bar> < 9007199254740992"
  shows "daysSinceLastUpdate parseDate now b = round_double (of_int (now - t) / 86400000)"
    and "\<exists>age. round_double (of_int (now - t) / 86400000) = Num age"
proof -
  have small: "\<bar>of_int (now - t) :: rat\<bar> < 9007199254740992"
    using assms(3) by (metis of_int_abs of_int_less_iff of_int_numeral)
  have "is_double (of_int (now - t))"
    using assms(3) by (intro is_double_of_int) simp
  moreover have "\<bar>of_int (now - t) :: rat\<bar> < 2 ^ 1023"
    using small by simp
  ultimately have "round_double (of_int (now - t)) = Num (of_int (now - t))"
    by (rule round_double_fixes)
  then show "daysSinceLastUpdate parseDate now b = round_double (of_int (now - t) / 86400000)"
    using assms(1,2) by (simp add: daysSinceLastUpdate_def getTime_def)
  have "\<bar>of_int (now - t) / 86400000 :: rat\<bar> \<le> \<bar>of_int (now - t)\<bar>"
    by (simp add: field_simps)
  with small have "\<bar>of_int (now - t) / 86400000 :: rat\<bar> < 2 ^ 1023"
    by simp
  then show "\<exists>age. round_double (of_int (now - t) / 86400000) = Num age"
    by (rule round_double_finite)
qed

lemma daysSinceLastUpdate_invalid:
  "parseDate (committed_date (commit b)) = None \<Longrightarrow> daysSinceLastUpdate parseDate now b = NaN"
  by (simp add: daysSinceLastUpdate_def getTime_def)

text \<open>
  Against a threshold of whole days, the rounded age decides as the exact elapsed time
  does: the branch is stale when more than that many days' worth of milliseconds have
  elapsed.
\<close>

lemma isBranchStale_whole_days:
  assumes "parseDate (committed_date (commit b)) = Some t" and "\<bar>t\<bar> \<le> 8640000000000000"
    and "\<bar>now - t\<bar> < 9007199254740992" and "staleDays cfg = Num (of_nat N)"
  shows "isBranchStale parseDate cfg now b \<longleftrightarrow> int N * 86400000 < now - t"
proof -
  from daysSinceLastUpdate_valid [where parseDate = parseDate and b = b, OF assms(1-3)]
  obtain age where
    age: "daysSinceLastUpdate parseDate now b = Num age"
      "round_double (of_int (now - t) / 86400000) = Num age"
    by auto
  have "\<bar>now - t\<bar> < 2 ^ 53" using assms(3) by simp
  from round_double_days_gt [OF this age(2), of N] show ?thesis
    by (simp add: isBranchStale_def age(1) assms(4))
qed

text \<open>
  Two clocks that agree on the readings the filter makes give the same result; the
  readings start at \<open>k1\<close> on one side and at \<open>k2\<close> on the other.
\<close>

lemma staleBranches_clock_cong:
  "\<forall>i < clockReads cfg bs. clock1 (k1 + i) = clock2 (k2 + i) \<Longrightarrow>
     staleBranches parseDate clock1 cfg k1 bs = staleBranches parseDate clock2 cfg k2 bs"
proof (induction bs arbitrary: k1 k2)
  case Nil
  then show ?case by simp
next
  case (Cons b bs)
  show ?case
  proof (cases "name b \<noteq> mainBranch cfg \<and> \<not> protected b")
    case True
    then have reads: "clockReads cfg (b # bs) = Suc (clockReads cfg bs)"
      by (simp add: clockReads_def)
    from Cons.prems reads have here: "clock1 k1 = clock2 k2"
      by (metis add.right_neutral zero_less_Suc)
    have "\<forall>i < clockReads cfg bs. clock1 (Suc k1 + i) = clock2 (Suc k2 + i)"
      using Cons.prems reads by (metis Suc_less_eq add_Suc_shift)
    then have "staleBranches parseDate clock1 cfg (Suc k1) bs
                 = staleBranches parseDate clock2 cfg (Suc k2) bs"
      by (rule Cons.IH)
    with True here show ?thesis by simp
  next
    case False
    then have "clockReads cfg (b # bs) = clockReads cfg bs"
      by (auto simp: clockReads_def)
    with Cons.prems have "staleBranches parseDate clock1 cfg k1 bs
                 = staleBranches parseDate clock2 cfg k2 bs"
      by (intro Cons.IH) simp
    with False show ?thesis by auto
  qed
qed

text \<open>
  C1. With the clock at \<open>now\<close>, the eligible branches are the branches of the list, in
  the order of the list, whose name is not the main branch name, whose protected flag is
  false, whose age in days is strictly greater than the threshold, and whose name is not
  in the exclusion list. So a branch is eligible if and only if it is in the list and
  meets the four conditions.
\<close>

theorem staleBranches_eligible_iff:
  "staleBranches parseDate (\<lambda>_. now) cfg 0 bs =
     filter (\<lambda>b. name b \<noteq> mainBranch cfg \<and> \<not> protected b
               \<and> js_gt (daysSinceLastUpdate parseDate now b) (staleDays cfg)
               \<and> name b \<notin> set (excludedBranches cfg)) bs
   \<and> (b \<in> set (staleBranches parseDate (\<lambda>_. now) cfg 0 bs) \<longleftrightarrow>
        b \<in> set bs \<and> name b \<noteq> mainBranch cfg \<and> \<not> protected b
          \<and> js_gt (daysSinceLastUpdate parseDate now b) (staleDays cfg)
          \<and> name b \<notin> set (excludedBranches cfg))"
  by (simp add: staleBranches_frozen_clock isBranchStale_def)

text \<open>
  The scenario of the specification, on 2026-11-03: main branch \<open>main\<close>, threshold 60 days,
  and the branches \<open>main\<close> (200 days old), \<open>feat/x\<close> (70 days, not protected), \<open>release\<close>
  (90 days, protected) and \<open>feat/y\<close> (10 days). Only \<open>feat/x\<close> is eligible.
\<close>

theorem staleBranches_example_scenario:
  "map name (staleBranches
    (map_of [(''2026-04-17T00:00:00Z'', 1776384000000), (''2026-08-25T00:00:00Z'', 1787616000000),
             (''2026-08-05T00:00:00Z'', 1785888000000), (''2026-10-24T00:00:00Z'', 1792800000000)])
    (\<lambda>_. 1793664000000)
    \<lparr>projectId = ''1'', mainBranch = ''main'', staleDays = Num 60, dryRun = True,
      excludedBranches = []\<rparr>
    0
    [\<lparr>name = ''main'', protected = False, commit = \<lparr>committed_date = ''2026-04-17T00:00:00Z''\<rparr>\<rparr>,
     \<lparr>name = ''feat/x'', protected = False, commit = \<lparr>committed_date = ''2026-08-25T00:00:00Z''\<rparr>\<rparr>,
     \<lparr>name = ''release'', protected = True, commit = \<lparr>committed_date = ''2026-08-05T00:00:00Z''\<rparr>\<rparr>,
     \<lparr>name = ''feat/y'', protected = False, commit = \<lparr>committed_date = ''2026-10-24T00:00:00Z''\<rparr>\<rparr>])
   = [''feat/x'']"
proof -
  let ?pd = "map_of [(''2026-04-17T00:00:00Z'', 1776384000000::int),
                     (''2026-08-25T00:00:00Z'', 1787616000000),
                     (''2026-08-05T00:00:00Z'', 1785888000000),
                     (''2026-10-24T00:00:00Z'', 1792800000000)]"
  let ?cfg = "\<lparr>projectId = ''1'', mainBranch = ''main'', staleDays = Num 60, dryRun = True,
                excludedBranches = []\<rparr>"
  have days: "staleDays ?cfg = Num (of_nat 60)" by simp
  have x: "js_gt (daysSinceLastUpdate ?pd 1793664000000
             \<lparr>name = ''feat/x'', protected = False,
               commit = \<lparr>committed_date = ''2026-08-25T00:00:00Z''\<rparr>\<rparr>) (staleDays ?cfg)"
    using isBranchStale_whole_days
            [where parseDate = ?pd and cfg = ?cfg and N = 60 and t = 1787616000000
               and now = 1793664000000
               and b = "\<lparr>name = ''feat/x'', protected = False,
                         commit = \<lparr>committed_date = ''2026-08-25T00:00:00Z''\<rparr>\<rparr>",
             OF _ _ _ days]
    by (simp add: isBranchStale_def)
  have y: "\<not> js_gt (daysSinceLastUpdate ?pd 1793664000000
             \<lparr>name = ''feat/y'', protected = False,
               commit = \<lparr>committed_date = ''2026-10-24T00:00:00Z''\<rparr>\<rparr>) (staleDays ?cfg)"
    using isBranchStale_whole_days
            [where parseDate = ?pd and cfg = ?cfg and N = 60 and t = 1792800000000
               and now = 1793664000000
               and b = "\<lparr>name = ''feat/y'', protected = False,
                         commit = \<lparr>committed_date = ''2026-10-24T00:00:00Z''\<rparr>\<rparr>",
             OF _ _ _ days]
    by (simp add: isBranchStale_def)
  show ?thesis
    unfolding staleBranches_eligible_iff [THEN conjunct1]
    using x y by simp
qed

text \<open>
  C7. Take a branch whose date parses to the time value \<open>t\<close>, a clock less than \<open>2 ^ 53\<close>
  milliseconds away from it, and a threshold \<open>T\<close>. The age is the double nearest to the
  exact quotient of the elapsed milliseconds by the milliseconds of a day: a fraction of
  days, not a count of whole days. When the exact quotient does not exceed a threshold
  that is a double, the branch is not stale. When the threshold is a whole number \<open>N\<close> of
  days, the branch is stale if and only if more than \<open>N\<close> days' worth of milliseconds have
  elapsed: at \<open>N\<close> days to the millisecond it is not stale, and one millisecond later it is.
\<close>

theorem isBranchStale_strict_fractional:
  assumes "parseDate (committed_date (commit b)) = Some t" and "\<bar>t\<bar> \<le> 8640000000000000"
    and "\<bar>now - t\<bar> < 9007199254740992" and "staleDays cfg = Num T"
  shows "(\<exists>age. daysSinceLastUpdate parseDate now b = Num age
            \<and> (\<forall>r. is_double r \<longrightarrow>
                  \<bar>age - of_int (now - t) / (1000 * 60 * 60 * 24)\<bar>
                    \<le> \<bar>r - of_int (now - t) / (1000 * 60 * 60 * 24)\<bar>))
     \<and> (is_double T \<and> of_int (now - t) / (1000 * 60 * 60 * 24) \<le> T
           \<longrightarrow> \<not> isBranchStale parseDate cfg now b)
     \<and> (\<forall>N. T = of_nat N \<longrightarrow>
           (isBranchStale parseDate cfg now b \<longleftrightarrow> int N * (1000 * 60 * 60 * 24) < now - t))"
proof -
  from daysSinceLastUpdate_valid [where parseDate = parseDate and b = b, OF assms(1-3)]
  obtain age where
    age: "daysSinceLastUpdate parseDate now b = Num age"
      "round_double (of_int (now - t) / 86400000) = Num age"
    by auto
  have nearest: "\<forall>r. is_double r \<longrightarrow>
      \<bar>age - of_int (now - t) / 86400000\<bar> \<le> \<bar>r - of_int (now - t) / 86400000\<bar>"
    using round_double_nearest [OF age(2)] by blast
  have below: "\<not> isBranchStale parseDate cfg now b"
    if "is_double T" and "of_int (now - t) / 86400000 \<le> T"
    using round_double_le [OF age(2) that] by (simp add: isBranchStale_def age(1) assms(4))
  have whole: "isBranchStale parseDate cfg now b \<longleftrightarrow> int N * 86400000 < now - t"
    if "T = of_nat N" for N
    using isBranchStale_whole_days
            [where parseDate = parseDate and b = b and cfg = cfg and N = N, OF assms(1-3)]
          assms(4) that
    by simp
  from age(1) nearest below whole show ?thesis by simp
qed

text \<open>
  Against a threshold of 60 days, a branch that is 60 days old to the millisecond is not
  stale, and the same branch 864000 milliseconds later, at 60.01 days, is.
\<close>

theorem isBranchStale_sixty_days_witness:
  "\<not> isBranchStale (map_of [(''2026-09-04T00:00:00Z'', 1788480000000)])
       \<lparr>projectId = ''1'', mainBranch = ''main'', staleDays = Num 60, dryRun = True,
         excludedBranches = []\<rparr>
       1793664000000
       \<lparr>name = ''feat/x'', protected = False,
         commit = \<lparr>committed_date = ''2026-09-04T00:00:00Z''\<rparr>\<rparr>
   \<and> isBranchStale (map_of [(''2026-09-04T00:00:00Z'', 1788480000000)])
       \<lparr>projectId = ''1'', mainBranch = ''main'', staleDays = Num 60, dryRun = True,
         excludedBranches = []\<rparr>
       1793664864000
       \<lparr>name = ''feat/x'', protected = False,
         commit = \<lparr>committed_date = ''2026-09-04T00:00:00Z''\<rparr>\<rparr>"
proof -
  let ?pd = "map_of [(''2026-09-04T00:00:00Z'', 1788480000000::int)]"
  let ?cfg = "\<lparr>projectId = ''1'', mainBranch = ''main'', staleDays = Num 60, dryRun = True,
                excludedBranches = []\<rparr>"
  let ?b = "\<lparr>name = ''feat/x'', protected = False,
              commit = \<lparr>committed_date = ''2026-09-04T00:00:00Z''\<rparr>\<rparr>"
  have parsed: "?pd (committed_date (commit ?b)) = Some 1788480000000" by simp
  have valid: "\<bar>1788480000000 :: int\<bar> \<le> 8640000000000000" by simp
  have days: "staleDays ?cfg = Num 60" by simp
  have at: "\<bar>1793664000000 - 1788480000000 :: int\<bar> < 9007199254740992" by simp
  have after: "\<bar>1793664864000 - 1788480000000 :: int\<bar> < 9007199254740992" by simp
  have sixty: "(60 :: rat) = of_nat 60" by simp
  from isBranchStale_strict_fractional
         [where parseDate = ?pd and b = ?b and cfg = ?cfg and now = 1793664000000,
          OF parsed valid at days]
       isBranchStale_strict_fractional
         [where parseDate = ?pd and b = ?b and cfg = ?cfg and now = 1793664864000,
          OF parsed valid after days]
  have "isBranchStale ?pd ?cfg 1793664000000 ?b
          \<longleftrightarrow> int 60 * (1000 * 60 * 60 * 24) < 1793664000000 - 1788480000000"
    and "isBranchStale ?pd ?cfg 1793664864000 ?b
          \<longleftrightarrow> int 60 * (1000 * 60 * 60 * 24) < 1793664864000 - 1788480000000"
    using sixty by blast+
  then show ?thesis by simp
qed

text \<open>
  C8, as the code has it. The filter reads the clock once for every branch that is neither
  the main branch nor protected, and its result depends on the branch list, the
  configuration and those readings only: two runs on the same list and configuration
  whose clocks agree on the readings made give the same eligible branches.
\<close>

theorem staleBranches_same_readings_same_result:
  assumes "\<forall>i < clockReads cfg bs. clock1 i = clock2 i"
  shows "staleBranches parseDate clock1 cfg 0 bs = staleBranches parseDate clock2 cfg 0 bs"
  using assms by (intro staleBranches_clock_cong) simp

text \<open>
  One branch, one reading: a clock that moves on after the first reading gives what the
  clock that stands still gives.
\<close>

theorem staleBranches_same_readings_witness:
  "staleBranches (map_of [(''2026-09-04T00:00:00Z'', 1788480000000)])
       (\<lambda>k. if k = 0 then 1793664864000 else 1793664865000)
       \<lparr>projectId = ''1'', mainBranch = ''main'', staleDays = Num 60, dryRun = True,
         excludedBranches = []\<rparr>
       0
       [\<lparr>name = ''feat/x'', protected = False,
          commit = \<lparr>committed_date = ''2026-09-04T00:00:00Z''\<rparr>\<rparr>]
   = staleBranches (map_of [(''2026-09-04T00:00:00Z'', 1788480000000)])
       (\<lambda>k. 1793664864000)
       \<lparr>projectId = ''1'', mainBranch = ''main'', staleDays = Num 60, dryRun = True,
         excludedBranches = []\<rparr>
       0
       [\<lparr>name = ''feat/x'', protected = False,
          commit = \<lparr>committed_date = ''2026-09-04T00:00:00Z''\<rparr>\<rparr>]"
  by (rule staleBranches_same_readings_same_result) (simp add: clockReads_def)

text \<open>
  The same branch list and the same configuration, filtered at two times one millisecond
  apart: at the first the branch is exactly 60 days old and not eligible, at the second it
  is eligible.
\<close>

theorem staleBranches_depends_on_clock:
  "staleBranches (map_of [(''2026-09-04T00:00:00Z'', 1788480000000)]) (\<lambda>_. 1793664000000)
       \<lparr>projectId = ''1'', mainBranch = ''main'', staleDays = Num 60, dryRun = True,
         excludedBranches = []\<rparr>
       0
       [\<lparr>name = ''feat/x'', protected = False,
          commit = \<lparr>committed_date = ''2026-09-04T00:00:00Z''\<rparr>\<rparr>]
   \<noteq> staleBranches (map_of [(''2026-09-04T00:00:00Z'', 1788480000000)]) (\<lambda>_. 1793664000001)
       \<lparr>projectId = ''1'', mainBranch = ''main'', staleDays = Num 60, dryRun = True,
         excludedBranches = []\<rparr>
       0
       [\<lparr>name = ''feat/x'', protected = False,
          commit = \<lparr>committed_date = ''2026-09-04T00:00:00Z''\<rparr>\<rparr>]"
proof -
  let ?pd = "map_of [(''2026-09-04T00:00:00Z'', 1788480000000::int)]"
  let ?cfg = "\<lparr>projectId = ''1'', mainBranch = ''main'', staleDays = Num 60, dryRun = True,
                excludedBranches = []\<rparr>"
  have days: "staleDays ?cfg = Num (of_nat 60)" by simp
  let ?b = "\<lparr>name = ''feat/x'', protected = False,
              commit = \<lparr>committed_date = ''2026-09-04T00:00:00Z''\<rparr>\<rparr>"
  have "\<not> isBranchStale ?pd ?cfg 1793664000000 ?b"
    using isBranchStale_whole_days
            [where parseDate = ?pd and cfg = ?cfg and N = 60 and t = 1788480000000
               and now = 1793664000000 and b = ?b, OF _ _ _ days]
    by simp
  moreover have "isBranchStale ?pd ?cfg 1793664000001 ?b"
    using isBranchStale_whole_days
            [where parseDate = ?pd and cfg = ?cfg and N = 60 and t = 1788480000000
               and now = 1793664000001 and b = ?b, OF _ _ _ days]
    by simp
  ultimately show ?thesis by simp
qed

text \<open>
  C10. A branch whose commit date does not parse has the age NaN, is not stale at any time
  and under any threshold, and is not among the eligible branches of any list, whatever
  the clock.
\<close>

theorem invalid_date_never_eligible:
  assumes "parseDate (committed_date (commit b)) = None"
  shows "daysSinceLastUpdate parseDate now b = NaN
     \<and> \<not> isBranchStale parseDate cfg now b
     \<and> b \<notin> set (staleBranches parseDate clock cfg k bs)"
proof -
  have nan: "\<And>t. daysSinceLastUpdate parseDate t b = NaN"
    using assms by (rule daysSinceLastUpdate_invalid)
  then have never: "\<And>t. \<not> isBranchStale parseDate cfg t b"
    by (simp add: isBranchStale_def)
  then have "b \<notin> set (staleBranches parseDate clock cfg k bs)"
    using staleBranches_member_stale by blast
  with nan never show ?thesis by simp
qed

text \<open>
  A branch dated \<open>not a date\<close>, alone in the list: its age is NaN and nothing is eligible.
\<close>

theorem invalid_date_never_eligible_witness:
  "daysSinceLastUpdate (map_of [(''2026-09-04T00:00:00Z'', 1788480000000)]) 1793664000000
       \<lparr>name = ''feat/x'', protected = False, commit = \<lparr>committed_date = ''not a date''\<rparr>\<rparr>
     = NaN
   \<and> staleBranches (map_of [(''2026-09-04T00:00:00Z'', 1788480000000)]) (\<lambda>_. 1793664000000)
       \<lparr>projectId = ''1'', mainBranch = ''main'', staleDays = Num 60, dryRun = True,
         excludedBranches = []\<rparr>
       0
       [\<lparr>name = ''feat/x'', protected = False, commit = \<lparr>committed_date = ''not a date''\<rparr>\<rparr>]
     = []"
proof -
  let ?pd = "map_of [(''2026-09-04T00:00:00Z'', 1788480000000::int)]"
  let ?b = "\<lparr>name = ''feat/x'', protected = False,
              commit = \<lparr>committed_date = ''not a date''\<rparr>\<rparr>"
  let ?cfg = "\<lparr>projectId = ''1'', mainBranch = ''main'', staleDays = Num 60, dryRun = True,
                excludedBranches = []\<rparr>"
  have invalid: "?pd (committed_date (commit ?b)) = None" by simp
  from invalid_date_never_eligible
         [where parseDate = ?pd and b = ?b and now = 1793664000000 and cfg = ?cfg
            and clock = "\<lambda>_. 1793664000000" and k = 0 and bs = "[?b]", OF invalid]
  show ?thesis by simp
qed

section \<open>Properties of the branch lister\<close>

lemma fullPage_iff:
  "fullPage api_get page \<longleftrightarrow> (\<exists>data. api_get perPage page = Inr data \<and> perPage \<le> length data)"
  by (auto simp: fullPage_def split: sum.splits)

text \<open>
  From page \<open>page\<close> on, \<open>n\<close> pages that send the loop on and then a short page: the loop
  returns all their items after the ones it holds, and has requested these pages only.
\<close>

lemma getBranches_loop_stops:
  assumes "\<forall>i<n. fullPage api_get (page + i)"
    and "api_get perPage (page + n) = Inr d" and "length d < perPage"
  shows "getBranches_loop api_get branches page requested =
           Some (Inr (branches @ concat (map (pageItems api_get) [page..<Suc (page + n)])),
                 requested @ map (Pair perPage) [page..<Suc (page + n)])"
  using assms
proof (induction n arbitrary: page branches requested)
  case 0
  then show ?case
    by (subst getBranches_loop.simps) (simp add: pageItems_def)
next
  case (Suc n)
  from Suc.prems(1) have "fullPage api_get (page + 0)" by blast
  then obtain d0 where d0: "api_get perPage page = Inr d0" "perPage \<le> length d0"
    by (auto simp: fullPage_iff)
  have full: "\<forall>i<n. fullPage api_get (Suc page + i)"
    using Suc.prems(1) by (metis Suc_less_eq add_Suc_shift)
  have last: "api_get perPage (Suc page + n) = Inr d"
    using Suc.prems(2) by simp
  have rest: "getBranches_loop api_get (branches @ d0) (Suc page) (requested @ [(perPage, page)]) =
           Some (Inr ((branches @ d0) @ concat (map (pageItems api_get) [Suc page..<Suc (Suc page + n)])),
                 (requested @ [(perPage, page)]) @ map (Pair perPage) [Suc page..<Suc (Suc page + n)])"
    by (rule Suc.IH [OF full last Suc.prems(3)])
  have items: "pageItems api_get page = d0"
    using d0 by (simp add: pageItems_def)
  have upt: "[page..<Suc (Suc (page + n))] = page # [Suc page..<Suc (Suc (page + n))]"
    by (simp add: upt_conv_Cons)
  show ?case
    using d0 rest items
    by (subst getBranches_loop.simps) (simp add: upt del: upt_Suc)
qed

text \<open>The same pages and then a request that fails: the loop throws, whatever it holds.\<close>

lemma getBranches_loop_fails:
  assumes "\<forall>i<n. fullPage api_get (page + i)"
    and "api_get perPage (page + n) = Inl e"
  shows "getBranches_loop api_get branches page requested =
           Some (Inl ''Failed to fetch branches from GitLab.'',
                 requested @ map (Pair perPage) [page..<Suc (page + n)])"
  using assms
proof (induction n arbitrary: page branches requested)
  case 0
  then show ?case
    by (subst getBranches_loop.simps) simp
next
  case (Suc n)
  from Suc.prems(1) have "fullPage api_get (page + 0)" by blast
  then obtain d0 where d0: "api_get perPage page = Inr d0" "perPage \<le> length d0"
    by (auto simp: fullPage_iff)
  have full: "\<forall>i<n. fullPage api_get (Suc page + i)"
    using Suc.prems(1) by (metis Suc_less_eq add_Suc_shift)
  have last: "api_get perPage (Suc page + n) = Inl e"
    using Suc.prems(2) by simp
  have rest: "getBranches_loop api_get (branches @ d0) (Suc page) (requested @ [(perPage, page)]) =
           Some (Inl ''Failed to fetch branches from GitLab.'',
                 (requested @ [(perPage, page)]) @ map (Pair perPage) [Suc page..<Suc (Suc page + n)])"
    by (rule Suc.IH [OF full last])
  have upt: "[page..<Suc (Suc (page + n))] = page # [Suc page..<Suc (Suc (page + n))]"
    by (simp add: upt_conv_Cons)
  show ?case
    using d0 rest
    by (subst getBranches_loop.simps) (simp add: upt del: upt_Suc)
qed

text \<open>The loop returns only if some page, from \<open>page\<close> on, does not send it on.\<close>

lemma getBranches_loop_returns:
  assumes "getBranches_loop api_get branches page requested = Some y"
  shows "\<exists>n. (\<forall>i<n. fullPage api_get (page + i)) \<and> \<not> fullPage api_get (page + n)"
proof (rule getBranches_loop.raw_induct
    [where P = "\<lambda>api_get branches page requested y.
                  \<exists>n. (\<forall>i<n. fullPage api_get (page + i)) \<and> \<not> fullPage api_get (page + n)",
     OF _ assms])
  fix loop :: "(nat \<Rightarrow> nat \<Rightarrow> http_error + branch list) \<Rightarrow> branch list \<Rightarrow> nat \<Rightarrow> (nat \<times> nat) list
                \<Rightarrow> ((string + branch list) \<times> (nat \<times> nat) list) option"
    and api_get :: "nat \<Rightarrow> nat \<Rightarrow> http_error + branch list"
    and branches :: "branch list" and page :: nat and requested :: "(nat \<times> nat) list"
    and y :: "(string + branch list) \<times> (nat \<times> nat) list"
  assume IH: "\<And>api_get branches page requested y.
      loop api_get branches page requested = Some y \<Longrightarrow>
      \<exists>n. (\<forall>i<n. fullPage api_get (page + i)) \<and> \<not> fullPage api_get (page + n)"
  assume body: "(case api_get perPage page of
          Inl err \<Rightarrow> Some (Inl ''Failed to fetch branches from GitLab.'', requested @ [(perPage, page)])
        | Inr data \<Rightarrow>
            if length data < perPage
            then Some (Inr (branches @ data), requested @ [(perPage, page)])
            else loop api_get (branches @ data) (page + 1) (requested @ [(perPage, page)])) = Some y"
  show "\<exists>n. (\<forall>i<n. fullPage api_get (page + i)) \<and> \<not> fullPage api_get (page + n)"
  proof (cases "fullPage api_get page")
    case False
    then have "(\<forall>i<0::nat. fullPage api_get (page + i)) \<and> \<not> fullPage api_get (page + 0)"
      by simp
    then show ?thesis by blast
  next
    case True
    then obtain d where d: "api_get perPage page = Inr d" "\<not> length d < perPage"
      by (auto simp: fullPage_def split: sum.splits)
    with body have "loop api_get (branches @ d) (page + 1) (requested @ [(perPage, page)]) = Some y"
      by simp
    from IH [OF this] obtain n where
      n: "\<forall>i<n. fullPage api_get (page + 1 + i)" "\<not> fullPage api_get (page + 1 + n)"
      by blast
    have "\<forall>i<Suc n. fullPage api_get (page + i)"
    proof (intro allI impI)
      fix i assume "i < Suc n"
      show "fullPage api_get (page + i)"
      proof (cases i)
        case 0
        with True show ?thesis by simp
      next
        case (Suc j)
        with \<open>i < Suc n\<close> n(1) show ?thesis by simp
      qed
    qed
    moreover have "\<not> fullPage api_get (page + Suc n)"
      using n(2) by simp
    ultimately show ?thesis by blast
  qed
qed

section \<open>Properties of the deletion loop\<close>

lemma failedNames_Nil: "failedNames api_delete k [] = []"
  by (simp add: failedNames_def)

lemma failedNames_Cons:
  "failedNames api_delete k (n # ns) =
     (if isl (api_delete k n) then n # failedNames api_delete (Suc k) ns
      else failedNames api_delete (Suc k) ns)"
  by (simp add: failedNames_def upt_conv_Cons del: upt_Suc)

lemma length_failedNames: "length (failedNames api_delete k ns) \<le> length ns"
  by (induction ns arbitrary: k) (auto simp: failedNames_Nil failedNames_Cons le_SucI)

lemma deleteLoop_dry: "dryRun cfg \<Longrightarrow> deleteLoop cfg api_delete bs st = st"
  by (induction bs arbitrary: st) (simp_all add: deleteBranch_def)

lemma deleteLoop_append:
  "deleteLoop cfg api_delete (xs @ ys) st =
     deleteLoop cfg api_delete ys (deleteLoop cfg api_delete xs st)"
  by (induction xs arbitrary: st) simp_all

text \<open>
  The whole effect of the loop when the run is not a dry run: every name is sent to the
  host, the names that failed are appended in order, and the counts move by the numbers of
  successes and failures.
\<close>

lemma deleteLoop_live:
  assumes "\<not> dryRun cfg"
  shows "deleteLoop cfg api_delete bs st =
     (let failed = failedNames api_delete (length (deleteCalls st)) (map name bs) in
      st\<lparr>deleteCalls := deleteCalls st @ map name bs,
         deletedCount := deletedCount st + (length bs - length failed),
         failedCount := failedCount st + length failed,
         result := (result st)
           \<lparr>branchesDeleted := branchesDeleted (result st) + (length bs - length failed),
            branchesFailed := branchesFailed (result st) + length failed,
            failedBranches := failedBranches (result st) @ failed,
            success := success (result st) \<and> failed = []\<rparr>\<rparr>)"
proof (induction bs arbitrary: st)
  case Nil
  show ?case by (simp add: failedNames_Nil)
next
  case (Cons b bs)
  have le: "length (failedNames api_delete (Suc (length (deleteCalls st))) (map name bs)) \<le> length bs"
    using length_failedNames [of api_delete _ "map name bs"] by simp
  show ?case
  proof (cases "api_delete (length (deleteCalls st)) (name b)")
    case (Inl e)
    with assms le show ?thesis
      by (simp add: Cons.IH deleteBranch_def failedNames_Cons Let_def)
  next
    case (Inr u)
    with assms le show ?thesis
      by (simp add: Cons.IH deleteBranch_def failedNames_Cons Let_def Suc_diff_le)
  qed
qed

lemma deleteLoop_upto:
  assumes "i < length bs"
  shows "deleteLoop cfg api_delete bs st =
           deleteLoop cfg api_delete (drop (Suc i) bs)
             (deleteBranch cfg api_delete (name (bs ! i)) (deleteLoop cfg api_delete (take i bs) st))"
proof -
  have "bs = take i bs @ (bs ! i) # drop (Suc i) bs"
    using assms by (simp add: id_take_nth_drop)
  then have "deleteLoop cfg api_delete bs st =
               deleteLoop cfg api_delete (take i bs @ (bs ! i) # drop (Suc i) bs) st"
    by simp
  then show ?thesis
    by (simp only: deleteLoop_append deleteLoop.simps)
qed

lemma deleteBranch_one_count:
  "\<not> dryRun cfg \<Longrightarrow>
     (branchesDeleted (result (deleteBranch cfg api_delete n st)) = branchesDeleted (result st) + 1
        \<and> branchesFailed (result (deleteBranch cfg api_delete n st)) = branchesFailed (result st))
     \<or> (branchesDeleted (result (deleteBranch cfg api_delete n st)) = branchesDeleted (result st)
        \<and> branchesFailed (result (deleteBranch cfg api_delete n st)) = branchesFailed (result st) + 1)"
  by (cases "api_delete (length (deleteCalls st)) n") (simp_all add: deleteBranch_def)

section \<open>The listing as a whole\<close>

lemma getBranches_first_short:
  assumes "1 \<le> n" and "\<forall>p\<in>{1..<n}. fullPage api_get p"
    and "api_get perPage n = Inr d" and "length d < perPage"
  shows "getBranches api_get =
           Some (Inr (concat (map (pageItems api_get) [1..<Suc n])), map (Pair perPage) [1..<Suc n])"
proof -
  from assms(1) obtain m where n: "n = 1 + m"
    by (metis le_Suc_ex)
  have full: "\<forall>i<m. fullPage api_get (1 + i)"
    using assms(2) n by simp
  have last: "api_get perPage (1 + m) = Inr d"
    using assms(3) n by simp
  from getBranches_loop_stops [OF full last assms(4), of "[]" "[]"]
  show ?thesis by (simp add: getBranches_def n)
qed

lemma getBranches_first_failure:
  assumes "1 \<le> n" and "\<forall>p\<in>{1..<n}. fullPage api_get p"
    and "api_get perPage n = Inl e"
  shows "getBranches api_get =
           Some (Inl ''Failed to fetch branches from GitLab.'', map (Pair perPage) [1..<Suc n])"
proof -
  from assms(1) obtain m where n: "n = 1 + m"
    by (metis le_Suc_ex)
  have full: "\<forall>i<m. fullPage api_get (1 + i)"
    using assms(2) n by simp
  have last: "api_get perPage (1 + m) = Inl e"
    using assms(3) n by simp
  from getBranches_loop_fails [OF full last, of "[]" "[]"]
  show ?thesis by (simp add: getBranches_def n)
qed

text \<open>
  The listing returns exactly when some page, from the first on, does not send the loop on:
  when some request fails or some page is short.
\<close>

lemma getBranches_returns_iff:
  "(\<exists>y. getBranches api_get = Some y) \<longleftrightarrow> (\<exists>p\<ge>1. \<not> fullPage api_get p)"
proof
  assume "\<exists>y. getBranches api_get = Some y"
  then obtain y where "getBranches_loop api_get [] 1 [] = Some y"
    by (auto simp: getBranches_def)
  from getBranches_loop_returns [OF this] obtain n where "\<not> fullPage api_get (1 + n)"
    by blast
  then show "\<exists>p\<ge>1. \<not> fullPage api_get p"
    by (intro exI [of _ "1 + n"]) simp
next
  assume "\<exists>p\<ge>1. \<not> fullPage api_get p"
  then obtain p where p: "1 \<le> p \<and> \<not> fullPage api_get p" by blast
  define n where "n = (LEAST q. 1 \<le> q \<and> \<not> fullPage api_get q)"
  have n: "1 \<le> n" "\<not> fullPage api_get n"
    using LeastI [of "\<lambda>q. 1 \<le> q \<and> \<not> fullPage api_get q", OF p] by (simp_all add: n_def)
  have full: "\<forall>q\<in>{1..<n}. fullPage api_get q"
  proof
    fix q assume "q \<in> {1..<n}"
    then have "1 \<le> q" and "q < (LEAST q. 1 \<le> q \<and> \<not> fullPage api_get q)"
      by (simp_all add: n_def)
    from not_less_Least [OF this(2)] this(1) show "fullPage api_get q" by simp
  qed
  show "\<exists>y. getBranches api_get = Some y"
  proof (cases "api_get perPage n")
    case (Inl e)
    from getBranches_first_failure [OF n(1) full Inl] show ?thesis by blast
  next
    case (Inr d)
    with n(2) have "length d < perPage"
      by (simp add: fullPage_def)
    from getBranches_first_short [OF n(1) full Inr this] show ?thesis by blast
  qed
qed

text \<open>
  C4, as the code has it. The test for stopping is \<^verbatim>\<open>data.length < perPage\<close>, so the lister
  goes on after every page of at least 100 items, not only after a page of exactly 100.
  When page \<open>n\<close> is the first page with fewer than 100 items, and the requests before it
  succeed, the lister requests the pages 1 to \<open>n\<close>, in this order and each with the page
  size 100, requests nothing else, and returns the items of these pages in order.
\<close>

theorem getBranches_pages_until_short:
  assumes "1 \<le> n"
    and "\<forall>p\<in>{1..<n}. \<exists>data. api_get 100 p = Inr data \<and> 100 \<le> length data"
    and "api_get 100 n = Inr d" and "length d < 100"
  shows "getBranches api_get =
           Some (Inr (concat (map (pageItems api_get) [1..<Suc n])), map (Pair 100) [1..<Suc n])"
proof -
  have full: "\<forall>p\<in>{1..<n}. fullPage api_get p"
    using assms(2) by (simp add: fullPage_iff perPage_def)
  from getBranches_first_short [OF assms(1) full] assms(3,4)
  show ?thesis by (simp add: perPage_def)
qed

text \<open>
  Pages 1 and 2 of 100 items and page 3 of 37: the lister returns 237 branches and has
  requested the pages 1, 2 and 3 only, although a request for page 4 would fail.
\<close>

theorem getBranches_237_branches:
  "getBranches (\<lambda>per_page page.
       if page = 1 \<or> page = 2
       then Inr (replicate 100 \<lparr>name = ''b'', protected = False,
                                 commit = \<lparr>committed_date = ''2026-01-01T00:00:00Z''\<rparr>\<rparr>)
       else if page = 3
       then Inr (replicate 37 \<lparr>name = ''b'', protected = False,
                                commit = \<lparr>committed_date = ''2026-01-01T00:00:00Z''\<rparr>\<rparr>)
       else Inl NoResponse)
   = Some (Inr (replicate 237 \<lparr>name = ''b'', protected = False,
                                commit = \<lparr>committed_date = ''2026-01-01T00:00:00Z''\<rparr>\<rparr>),
           [(100, 1), (100, 2), (100, 3)])"
proof -
  let ?b = "\<lparr>name = ''b'', protected = False,
              commit = \<lparr>committed_date = ''2026-01-01T00:00:00Z''\<rparr>\<rparr>"
  let ?host = "\<lambda>per_page page :: nat.
       if page = 1 \<or> page = 2 then Inr (replicate 100 ?b)
       else if page = 3 then Inr (replicate 37 ?b)
       else (Inl NoResponse :: http_error + branch list)"
  have pages: "[Suc 0..<4] = [1, 2, 3]"
    by (simp add: upt_rec)
  have full: "\<forall>p\<in>{1..<3}. \<exists>data. ?host 100 p = Inr data \<and> 100 \<le> length data"
    by auto
  have "replicate 100 ?b @ replicate 100 ?b @ replicate 37 ?b = replicate 237 ?b"
    by (simp add: replicate_add [symmetric])
  with getBranches_pages_until_short
         [where api_get = ?host and n = 3 and d = "replicate 37 ?b", OF _ full]
  show ?thesis by (simp add: pages pageItems_def perPage_def)
qed

text \<open>
  A host whose first page holds 101 items and whose second page is empty: the first page
  does not have 100 items, and the lister still requests the second.
\<close>

theorem getBranches_advances_past_oversized_page:
  "getBranches (\<lambda>per_page page.
       if page = 1
       then Inr (replicate 101 \<lparr>name = ''b'', protected = False,
                                 commit = \<lparr>committed_date = ''2026-01-01T00:00:00Z''\<rparr>\<rparr>)
       else Inr [])
     = Some (Inr (replicate 101 \<lparr>name = ''b'', protected = False,
                                  commit = \<lparr>committed_date = ''2026-01-01T00:00:00Z''\<rparr>\<rparr>),
             [(100, 1), (100, 2)])
   \<and> length (replicate 101 \<lparr>name = ''b'', protected = False,
                                commit = \<lparr>committed_date = ''2026-01-01T00:00:00Z''\<rparr>\<rparr>) \<noteq> 100"
  unfolding getBranches_def
  by (subst getBranches_loop.simps, simp add: perPage_def,
      subst getBranches_loop.simps, simp add: perPage_def)

section \<open>Properties of a run\<close>

text \<open>What a run is once the listing has returned.\<close>

lemma runCleaner_fetch_failed:
  "getBranches api_get = Some (Inl msg, requested) \<Longrightarrow>
     runCleaner parseDate clock api_get api_delete cfg =
       Some \<lparr>final = initial\<lparr>result := (result initial)\<lparr>success := False\<rparr>\<rparr>,
             pagesRequested = requested, exitCode = Some 2\<rparr>"
  by (simp add: runCleaner_def)

lemma runCleaner_fetched:
  "getBranches api_get = Some (Inr branches, requested) \<Longrightarrow>
     runCleaner parseDate clock api_get api_delete cfg =
       Some \<lparr>final = deleteLoop cfg api_delete (staleBranches parseDate clock cfg 0 branches)
                       (initial\<lparr>result := (result initial)
                          \<lparr>branchesScanned := length branches,
                           branchesEligible := length (staleBranches parseDate clock cfg 0 branches)\<rparr>\<rparr>),
             pagesRequested = requested,
             exitCode =
               (if 0 < failedCount (deleteLoop cfg api_delete (staleBranches parseDate clock cfg 0 branches)
                       (initial\<lparr>result := (result initial)
                          \<lparr>branchesScanned := length branches,
                           branchesEligible := length (staleBranches parseDate clock cfg 0 branches)\<rparr>\<rparr>))
                then Some 2 else None)\<rparr>"
  by (simp add: runCleaner_def Let_def)

lemma runCleaner_returns_iff:
  "(\<exists>out. runCleaner parseDate clock api_get api_delete cfg = Some out)
     \<longleftrightarrow> (\<exists>p\<ge>1. \<not> fullPage api_get p)"
proof -
  have "(\<exists>out. runCleaner parseDate clock api_get api_delete cfg = Some out)
          \<longleftrightarrow> (\<exists>y. getBranches api_get = Some y)"
    by (auto simp: runCleaner_def Let_def split: option.splits sum.splits prod.splits)
  then show ?thesis by (simp only: getBranches_returns_iff)
qed

text \<open>
  C5. When the request for page \<open>n\<close> fails, after pages that sent the loop on, the listing
  fails with the pages 1 to \<open>n\<close> requested and returns no branch; the run, dry or not, sends
  no delete request and ends with the four counts at zero, no failed name, the success flag
  false and the exit code 2.
\<close>

theorem fetch_failure_aborts_run:
  assumes "1 \<le> n"
    and "\<forall>p\<in>{1..<n}. \<exists>data. api_get 100 p = Inr data \<and> 100 \<le> length data"
    and "api_get 100 n = Inl err"
  shows "getBranches api_get =
           Some (Inl ''Failed to fetch branches from GitLab.'', map (Pair 100) [1..<Suc n])
     \<and> runCleaner parseDate clock api_get api_delete cfg =
           Some \<lparr>final = \<lparr>result = \<lparr>branchesScanned = 0, branchesEligible = 0, branchesDeleted = 0,
                                     branchesFailed = 0, failedBranches = [], success = False\<rparr>,
                           deletedCount = 0, failedCount = 0, deleteCalls = []\<rparr>,
                  pagesRequested = map (Pair 100) [1..<Suc n], exitCode = Some 2\<rparr>"
proof -
  have full: "\<forall>p\<in>{1..<n}. fullPage api_get p"
    using assms(2) by (simp add: fullPage_iff perPage_def)
  have failed: "api_get perPage n = Inl err"
    using assms(3) by (simp add: perPage_def)
  have fetch: "getBranches api_get =
           Some (Inl ''Failed to fetch branches from GitLab.'', map (Pair 100) [1..<Suc n])"
    using getBranches_first_failure [OF assms(1) full failed] by (simp add: perPage_def)
  then show ?thesis
    by (simp add: runCleaner_def initial_def)
qed

text \<open>
  A first page of 100 stale branches and a second request that the host answers with the
  status 500: nothing is scanned, nothing is deleted, and the run fails.
\<close>

theorem fetch_failure_aborts_run_witness:
  "runCleaner (map_of [(''2026-01-01T00:00:00Z'', 1767225600000)]) (\<lambda>k. 1793664000000 + int k)
     (\<lambda>per_page page.
        if page = 1
        then Inr (replicate 100 \<lparr>name = ''old'', protected = False,
                                  commit = \<lparr>committed_date = ''2026-01-01T00:00:00Z''\<rparr>\<rparr>)
        else Inl (Status 500))
     (\<lambda>k n. Inr ())
     \<lparr>projectId = ''42'', mainBranch = ''main'', staleDays = Num 60, dryRun = False,
       excludedBranches = []\<rparr>
   = Some \<lparr>final =
             \<lparr>result = \<lparr>branchesScanned = 0, branchesEligible = 0, branchesDeleted = 0,
                         branchesFailed = 0, failedBranches = [], success = False\<rparr>,
              deletedCount = 0, failedCount = 0, deleteCalls = []\<rparr>,
           pagesRequested = [(100, 1), (100, 2)], exitCode = Some 2\<rparr>"
proof -
  let ?b = "\<lparr>name = ''old'', protected = False,
              commit = \<lparr>committed_date = ''2026-01-01T00:00:00Z''\<rparr>\<rparr>"
  let ?host = "\<lambda>per_page page :: nat.
       if page = 1 then Inr (replicate 100 ?b) else (Inl (Status 500) :: http_error + branch list)"
  have pages: "[Suc 0..<3] = [1, 2]"
    by (simp add: upt_rec)
  have full: "\<forall>p\<in>{1..<2}. \<exists>data. ?host 100 p = Inr data \<and> 100 \<le> length data"
    by auto
  have failed: "?host 100 2 = Inl (Status 500)" by simp
  from fetch_failure_aborts_run [where api_get = ?host and n = 2, OF _ full failed]
  show ?thesis by (simp add: pages)
qed

text \<open>
  C3. In a dry run, every run that ends has sent no delete request and has its deleted
  count at zero, however many branches are eligible; and the run ends as soon as the
  listing does, that is when some page does not send the loop on. The listing itself has
  no access to the delete requests.
\<close>

theorem dry_run_issues_no_delete:
  assumes "dryRun cfg"
  shows "(\<forall>out. runCleaner parseDate clock api_get api_delete cfg = Some out \<longrightarrow>
            deleteCalls (final out) = [] \<and> branchesDeleted (result (final out)) = 0
              \<and> deletedCount (final out) = 0)
     \<and> ((\<exists>p\<ge>1. \<not> fullPage api_get p) \<longrightarrow>
            (\<exists>out. runCleaner parseDate clock api_get api_delete cfg = Some out))"
proof -
  have "deleteCalls (final out) = [] \<and> branchesDeleted (result (final out)) = 0
          \<and> deletedCount (final out) = 0"
    if run: "runCleaner parseDate clock api_get api_delete cfg = Some out" for out
  proof (cases "getBranches api_get")
    case None
    with run show ?thesis by (simp add: runCleaner_def)
  next
    case (Some y)
    obtain r requested where y: "y = (r, requested)" by (cases y)
    show ?thesis
    proof (cases r)
      case (Inl msg)
      with Some y run runCleaner_fetch_failed [of api_get msg requested parseDate clock api_delete cfg]
      show ?thesis by (auto simp: initial_def)
    next
      case (Inr branches)
      with Some y run runCleaner_fetched [of api_get branches requested parseDate clock api_delete cfg]
      show ?thesis by (auto simp: deleteLoop_dry [OF assms] initial_def)
    qed
  qed
  then show ?thesis
    by (simp add: runCleaner_returns_iff)
qed

text \<open>
  A dry run over two eligible branches: it ends, with no delete request sent and nothing
  deleted.
\<close>

theorem dry_run_issues_no_delete_witness:
  "runCleaner (map_of [(''2026-01-01T00:00:00Z'', 1767225600000)]) (\<lambda>k. 1793664000000 + int k)
     (\<lambda>per_page page.
        if page = 1
        then Inr (map (\<lambda>n. \<lparr>name = n, protected = False,
                              commit = \<lparr>committed_date = ''2026-01-01T00:00:00Z''\<rparr>\<rparr>)
                   [''feat/a'', ''feat/b''])
        else Inl NoResponse)
     (\<lambda>k n. Inr ())
     \<lparr>projectId = ''42'', mainBranch = ''main'', staleDays = Num 60, dryRun = True,
       excludedBranches = []\<rparr>
   = Some \<lparr>final =
             \<lparr>result = \<lparr>branchesScanned = 2, branchesEligible = 2, branchesDeleted = 0,
                         branchesFailed = 0, failedBranches = [], success = True\<rparr>,
              deletedCount = 0, failedCount = 0, deleteCalls = []\<rparr>,
           pagesRequested = [(100, 1)], exitCode = None\<rparr>"
proof -
  let ?pd = "map_of [(''2026-01-01T00:00:00Z'', 1767225600000::int)]"
  let ?clock = "\<lambda>k. 1793664000000 + int k"
  let ?bs = "map (\<lambda>n. \<lparr>name = n, protected = False,
                          commit = \<lparr>committed_date = ''2026-01-01T00:00:00Z''\<rparr>\<rparr>)
               [''feat/a'', ''feat/b'']"
  let ?host = "\<lambda>per_page page :: nat.
                 if page = 1 then Inr ?bs else (Inl NoResponse :: http_error + branch list)"
  let ?del = "\<lambda>(k::nat) (n::string). (Inr () :: http_error + unit)"
  let ?cfg = "\<lparr>projectId = ''42'', mainBranch = ''main'', staleDays = Num 60, dryRun = True,
                excludedBranches = []\<rparr>"
  have old: "\<forall>n p now. \<bar>now - 1767225600000\<bar> < 9007199254740992 \<longrightarrow>
      isBranchStale ?pd ?cfg now
        \<lparr>name = n, protected = p, commit = \<lparr>committed_date = ''2026-01-01T00:00:00Z''\<rparr>\<rparr>
      = (5184000000 < now - 1767225600000)"
  proof (intro allI impI)
    fix n p and now :: int
    assume near: "\<bar>now - 1767225600000\<bar> < 9007199254740992"
    from isBranchStale_whole_days
           [where parseDate = ?pd and cfg = ?cfg and N = 60 and t = 1767225600000 and now = now
              and b = "\<lparr>name = n, protected = p,
                        commit = \<lparr>committed_date = ''2026-01-01T00:00:00Z''\<rparr>\<rparr>",
            OF _ _ near]
    show "isBranchStale ?pd ?cfg now
        \<lparr>name = n, protected = p, commit = \<lparr>committed_date = ''2026-01-01T00:00:00Z''\<rparr>\<rparr>
      = (5184000000 < now - 1767225600000)"
      by simp
  qed
  have dry: "dryRun ?cfg" by simp
  have short: "\<exists>p\<ge>1. \<not> fullPage ?host p"
    by (intro exI [of _ 1]) (simp add: fullPage_def perPage_def)
  have fetch: "getBranches ?host = Some (Inr ?bs, [(100, 1)])"
    unfolding getBranches_def by (subst getBranches_loop.simps) (simp add: perPage_def)
  from dry_run_issues_no_delete
         [where parseDate = ?pd and clock = ?clock and api_get = ?host and api_delete = ?del
            and cfg = ?cfg, OF dry] short
  obtain out where run: "runCleaner ?pd ?clock ?host ?del ?cfg = Some out"
    and none: "deleteCalls (final out) = []" "branchesDeleted (result (final out)) = 0"
      "deletedCount (final out) = 0"
    by blast
  have "result (final out) =
          \<lparr>branchesScanned = 2, branchesEligible = 2, branchesDeleted = 0,
            branchesFailed = 0, failedBranches = [], success = True\<rparr>"
       "failedCount (final out) = 0" "pagesRequested out = [(100, 1)]" "exitCode out = None"
    using run [unfolded runCleaner_fetched [OF fetch]] old
    by (auto simp: deleteBranch_def initial_def)
  with none have "out = \<lparr>final =
             \<lparr>result = \<lparr>branchesScanned = 2, branchesEligible = 2, branchesDeleted = 0,
                         branchesFailed = 0, failedBranches = [], success = True\<rparr>,
              deletedCount = 0, failedCount = 0, deleteCalls = []\<rparr>,
           pagesRequested = [(100, 1)], exitCode = None\<rparr>"
    by (cases out, cases "final out") simp
  with run show ?thesis by simp
qed

text \<open>
  C6. A run ends exactly when the listing does, that is when some page does not send the
  loop on; and at the end of every run, the success flag is true if and only if the
  listing returned the branches and the count of failed deletions is zero.
\<close>

theorem success_iff_fetched_and_none_failed:
  "((\<exists>out. runCleaner parseDate clock api_get api_delete cfg = Some out)
      \<longleftrightarrow> (\<exists>p\<ge>1. \<not> fullPage api_get p))
   \<and> (\<forall>out. runCleaner parseDate clock api_get api_delete cfg = Some out \<longrightarrow>
          (success (result (final out)) \<longleftrightarrow>
             (\<exists>branches requested. getBranches api_get = Some (Inr branches, requested))
               \<and> branchesFailed (result (final out)) = 0))"
proof -
  have "success (result (final out)) \<longleftrightarrow>
           (\<exists>branches requested. getBranches api_get = Some (Inr branches, requested))
             \<and> branchesFailed (result (final out)) = 0"
    if ends: "runCleaner parseDate clock api_get api_delete cfg = Some out" for out
  proof (cases "getBranches api_get")
    case None
    with ends show ?thesis by (simp add: runCleaner_def)
  next
    case (Some y)
    obtain r requested where y: "y = (r, requested)" by (cases y)
    show ?thesis
    proof (cases r)
      case (Inl msg)
      with Some y ends runCleaner_fetch_failed [of api_get msg requested parseDate clock api_delete cfg]
      show ?thesis by (auto simp: initial_def)
    next
      case (Inr branches)
      note run = runCleaner_fetched [of api_get branches requested parseDate clock api_delete cfg]
      show ?thesis
      proof (cases "dryRun cfg")
        case True
        with Inr Some y ends run show ?thesis
          by (auto simp: deleteLoop_dry initial_def)
      next
        case False
        with Inr Some y ends run show ?thesis
          by (auto simp: deleteLoop_live Let_def initial_def)
      qed
    qed
  qed
  with runCleaner_returns_iff [of parseDate clock api_get api_delete cfg] show ?thesis
    by blast
qed

text \<open>
  Two runs over the same two eligible branches. In the first the second delete request
  fails: the run ends with the failed count 1 and the success flag false. In the second
  both requests succeed: the run ends with the failed count 0 and the success flag true.
\<close>

theorem success_iff_fetched_and_none_failed_witness:
  "runCleaner (map_of [(''2026-01-01T00:00:00Z'', 1767225600000)]) (\<lambda>k. 1793664000000 + int k)
     (\<lambda>per_page page.
        if page = 1
        then Inr (map (\<lambda>n. \<lparr>name = n, protected = False,
                              commit = \<lparr>committed_date = ''2026-01-01T00:00:00Z''\<rparr>\<rparr>)
                   [''feat/a'', ''feat/b''])
        else Inl NoResponse)
     (\<lambda>k n. if k = 1 then Inl (Status 404) else Inr ())
     \<lparr>projectId = ''42'', mainBranch = ''main'', staleDays = Num 60, dryRun = False,
       excludedBranches = []\<rparr>
   = Some \<lparr>final =
             \<lparr>result = \<lparr>branchesScanned = 2, branchesEligible = 2, branchesDeleted = 1,
                         branchesFailed = 1, failedBranches = [''feat/b''], success = False\<rparr>,
              deletedCount = 1, failedCount = 1, deleteCalls = [''feat/a'', ''feat/b'']\<rparr>,
           pagesRequested = [(100, 1)], exitCode = Some 2\<rparr>
   \<and> runCleaner (map_of [(''2026-01-01T00:00:00Z'', 1767225600000)]) (\<lambda>k. 1793664000000 + int k)
     (\<lambda>per_page page.
        if page = 1
        then Inr (map (\<lambda>n. \<lparr>name = n, protected = False,
                              commit = \<lparr>committed_date = ''2026-01-01T00:00:00Z''\<rparr>\<rparr>)
                   [''feat/a'', ''feat/b''])
        else Inl NoResponse)
     (\<lambda>k n. Inr ())
     \<lparr>projectId = ''42'', mainBranch = ''main'', staleDays = Num 60, dryRun = False,
       excludedBranches = []\<rparr>
   = Some \<lparr>final =
             \<lparr>result = \<lparr>branchesScanned = 2, branchesEligible = 2, branchesDeleted = 2,
                         branchesFailed = 0, failedBranches = [], success = True\<rparr>,
              deletedCount = 2, failedCount = 0, deleteCalls = [''feat/a'', ''feat/b'']\<rparr>,
           pagesRequested = [(100, 1)], exitCode = None\<rparr>"
proof -
  let ?pd = "map_of [(''2026-01-01T00:00:00Z'', 1767225600000::int)]"
  let ?clock = "\<lambda>k. 1793664000000 + int k"
  let ?bs = "map (\<lambda>n. \<lparr>name = n, protected = False,
                          commit = \<lparr>committed_date = ''2026-01-01T00:00:00Z''\<rparr>\<rparr>)
               [''feat/a'', ''feat/b'']"
  let ?host = "\<lambda>per_page page :: nat.
                 if page = 1 then Inr ?bs else (Inl NoResponse :: http_error + branch list)"
  let ?del1 = "\<lambda>(k::nat) (n::string).
                 if k = 1 then Inl (Status 404) else (Inr () :: http_error + unit)"
  let ?del2 = "\<lambda>(k::nat) (n::string). (Inr () :: http_error + unit)"
  let ?cfg = "\<lparr>projectId = ''42'', mainBranch = ''main'', staleDays = Num 60, dryRun = False,
                excludedBranches = []\<rparr>"
  have old: "\<forall>n p now. \<bar>now - 1767225600000\<bar> < 9007199254740992 \<longrightarrow>
      isBranchStale ?pd ?cfg now
        \<lparr>name = n, protected = p, commit = \<lparr>committed_date = ''2026-01-01T00:00:00Z''\<rparr>\<rparr>
      = (5184000000 < now - 1767225600000)"
  proof (intro allI impI)
    fix n p and now :: int
    assume near: "\<bar>now - 1767225600000\<bar> < 9007199254740992"
    from isBranchStale_whole_days
           [where parseDate = ?pd and cfg = ?cfg and N = 60 and t = 1767225600000 and now = now
              and b = "\<lparr>name = n, protected = p,
                        commit = \<lparr>committed_date = ''2026-01-01T00:00:00Z''\<rparr>\<rparr>",
            OF _ _ near]
    show "isBranchStale ?pd ?cfg now
        \<lparr>name = n, protected = p, commit = \<lparr>committed_date = ''2026-01-01T00:00:00Z''\<rparr>\<rparr>
      = (5184000000 < now - 1767225600000)"
      by simp
  qed
  have short: "\<exists>p\<ge>1. \<not> fullPage ?host p"
    by (intro exI [of _ 1]) (simp add: fullPage_def perPage_def)
  have fetch: "getBranches ?host = Some (Inr ?bs, [(100, 1)])"
    unfolding getBranches_def by (subst getBranches_loop.simps) (simp add: perPage_def)
  then have fetched: "\<exists>branches requested. getBranches ?host = Some (Inr branches, requested)"
    by blast
  from success_iff_fetched_and_none_failed
         [where parseDate = ?pd and clock = ?clock and api_get = ?host and api_delete = ?del1
            and cfg = ?cfg] short fetched
  obtain out1 where run1: "runCleaner ?pd ?clock ?host ?del1 ?cfg = Some out1"
    and flag1: "success (result (final out1)) \<longleftrightarrow> branchesFailed (result (final out1)) = 0"
    by blast
  from success_iff_fetched_and_none_failed
         [where parseDate = ?pd and clock = ?clock and api_get = ?host and api_delete = ?del2
            and cfg = ?cfg] short fetched
  obtain out2 where run2: "runCleaner ?pd ?clock ?host ?del2 ?cfg = Some out2"
    and flag2: "success (result (final out2)) \<longleftrightarrow> branchesFailed (result (final out2)) = 0"
    by blast
  have "out1 = \<lparr>final =
             \<lparr>result = \<lparr>branchesScanned = 2, branchesEligible = 2, branchesDeleted = 1,
                         branchesFailed = 1, failedBranches = [''feat/b''], success = False\<rparr>,
              deletedCount = 1, failedCount = 1, deleteCalls = [''feat/a'', ''feat/b'']\<rparr>,
           pagesRequested = [(100, 1)], exitCode = Some 2\<rparr>"
    using run1 [unfolded runCleaner_fetched [OF fetch]] old
    by (auto simp: deleteBranch_def initial_def)
  moreover have "out2 = \<lparr>final =
             \<lparr>result = \<lparr>branchesScanned = 2, branchesEligible = 2, branchesDeleted = 2,
                         branchesFailed = 0, failedBranches = [], success = True\<rparr>,
              deletedCount = 2, failedCount = 0, deleteCalls = [''feat/a'', ''feat/b'']\<rparr>,
           pagesRequested = [(100, 1)], exitCode = None\<rparr>"
    using run2 [unfolded runCleaner_fetched [OF fetch]] old
    by (auto simp: deleteBranch_def initial_def)
  ultimately show ?thesis using run1 run2 by simp
qed

text \<open>
  C2. In a run that is not a dry run and whose listing succeeded, let the delete request
  for the eligible branch at position \<open>i\<close> fail, and let \<open>before\<close> be the state once the
  branches before it are processed. Processing the branch appends its name to the failed
  names, adds one to the failed count and sets the success flag to false; the loop then
  processes the branches after it, so that the run ends with a delete request sent for
  every eligible branch, in order, with the name among the failed names and the success
  flag false.
\<close>

theorem deletion_failure_recorded_and_loop_continues:
  assumes "\<not> dryRun cfg" and "getBranches api_get = Some (Inr branches, requested)"
    and "stale = staleBranches parseDate clock cfg 0 branches"
    and "before = deleteLoop cfg api_delete (take i stale)
                    (initial\<lparr>result := (result initial)
                       \<lparr>branchesScanned := length branches, branchesEligible := length stale\<rparr>\<rparr>)"
    and "i < length stale" and "api_delete i (name (stale ! i)) = Inl err"
  shows "\<exists>out after.
       runCleaner parseDate clock api_get api_delete cfg = Some out
     \<and> after = deleteBranch cfg api_delete (name (stale ! i)) before
     \<and> failedBranches (result after) = failedBranches (result before) @ [name (stale ! i)]
     \<and> branchesFailed (result after) = branchesFailed (result before) + 1
     \<and> \<not> success (result after)
     \<and> final out = deleteLoop cfg api_delete (drop (Suc i) stale) after
     \<and> deleteCalls (final out) = map name stale
     \<and> name (stale ! i) \<in> set (failedBranches (result (final out)))
     \<and> 0 < branchesFailed (result (final out))
     \<and> \<not> success (result (final out))"
proof -
  define st0 where "st0 = initial\<lparr>result := (result initial)
                       \<lparr>branchesScanned := length branches, branchesEligible := length stale\<rparr>\<rparr>"
  define after where "after = deleteBranch cfg api_delete (name (stale ! i)) before"
  define fin where "fin = deleteLoop cfg api_delete (drop (Suc i) stale) after"
  have before: "before = deleteLoop cfg api_delete (take i stale) st0"
    using assms(4) by (simp add: st0_def)
  have calls_before: "deleteCalls before = map name (take i stale)"
    by (simp add: before deleteLoop_live [OF assms(1)] Let_def st0_def initial_def)
  then have "length (deleteCalls before) = i"
    using assms(5) by simp
  with assms(1,6) have step:
      "failedBranches (result after) = failedBranches (result before) @ [name (stale ! i)]"
      "branchesFailed (result after) = branchesFailed (result before) + 1"
      "\<not> success (result after)"
      "deleteCalls after = deleteCalls before @ [name (stale ! i)]"
    by (simp_all add: after_def deleteBranch_def)
  have whole: "deleteLoop cfg api_delete stale st0 = fin"
    using deleteLoop_upto [OF assms(5), of cfg api_delete st0] by (simp add: fin_def after_def before)
  have run: "runCleaner parseDate clock api_get api_delete cfg =
      Some \<lparr>final = fin, pagesRequested = requested,
            exitCode = (if 0 < failedCount fin then Some 2 else None)\<rparr>"
    using runCleaner_fetched [OF assms(2), of parseDate clock api_delete cfg] whole
    by (simp add: assms(3) st0_def)
  have "deleteCalls (deleteLoop cfg api_delete stale st0) = map name stale"
    by (simp add: deleteLoop_live [OF assms(1)] Let_def st0_def initial_def)
  then have "deleteCalls fin = map name stale"
    by (simp only: whole)
  moreover have rest: "failedBranches (result fin) =
      failedBranches (result after) @ failedNames api_delete (length (deleteCalls after)) (map name (drop (Suc i) stale))"
      "branchesFailed (result fin) =
         branchesFailed (result after) + length (failedNames api_delete (length (deleteCalls after)) (map name (drop (Suc i) stale)))"
      "success (result fin) \<longrightarrow> success (result after)"
    by (simp_all add: fin_def deleteLoop_live [OF assms(1)] Let_def)
  ultimately show ?thesis
    using run step by (simp add: after_def fin_def)
qed

text \<open>
  Five eligible branches, of which the host refuses to delete the third only: the run ends
  with four deleted, one failed, \<open>branch#3\<close> as the only failed name and the success flag
  false, and the delete requests for the fourth and fifth branches have been sent.
\<close>

theorem five_branches_third_fails:
  "runCleaner (map_of [(''2026-01-01T00:00:00Z'', 1767225600000)]) (\<lambda>k. 1793664000000 + int k)
     (\<lambda>per_page page.
        if page = 1
        then Inr (map (\<lambda>n. \<lparr>name = n, protected = False,
                              commit = \<lparr>committed_date = ''2026-01-01T00:00:00Z''\<rparr>\<rparr>)
                   [''branch#1'', ''branch#2'', ''branch#3'', ''branch#4'', ''branch#5''])
        else Inl NoResponse)
     (\<lambda>k n. if n = ''branch#3'' then Inl (Status 403) else Inr ())
     \<lparr>projectId = ''42'', mainBranch = ''main'', staleDays = Num 60, dryRun = False,
       excludedBranches = []\<rparr>
   = Some \<lparr>final =
             \<lparr>result = \<lparr>branchesScanned = 5, branchesEligible = 5, branchesDeleted = 4,
                         branchesFailed = 1, failedBranches = [''branch#3''], success = False\<rparr>,
              deletedCount = 4, failedCount = 1,
              deleteCalls = [''branch#1'', ''branch#2'', ''branch#3'', ''branch#4'', ''branch#5'']\<rparr>,
           pagesRequested = [(100, 1)], exitCode = Some 2\<rparr>"
proof -
  let ?pd = "map_of [(''2026-01-01T00:00:00Z'', 1767225600000::int)]"
  let ?clock = "\<lambda>k. 1793664000000 + int k"
  let ?bs = "map (\<lambda>n. \<lparr>name = n, protected = False,
                          commit = \<lparr>committed_date = ''2026-01-01T00:00:00Z''\<rparr>\<rparr>)
               [''branch#1'', ''branch#2'', ''branch#3'', ''branch#4'', ''branch#5'']"
  let ?host = "\<lambda>per_page page :: nat.
                 if page = 1 then Inr ?bs else (Inl NoResponse :: http_error + branch list)"
  let ?del = "\<lambda>(k::nat) n. if n = ''branch#3'' then Inl (Status 403) else (Inr () :: http_error + unit)"
  let ?cfg = "\<lparr>projectId = ''42'', mainBranch = ''main'', staleDays = Num 60, dryRun = False,
                excludedBranches = []\<rparr>"
  have old: "\<forall>n p now. \<bar>now - 1767225600000\<bar> < 9007199254740992 \<longrightarrow>
      isBranchStale ?pd ?cfg now
        \<lparr>name = n, protected = p, commit = \<lparr>committed_date = ''2026-01-01T00:00:00Z''\<rparr>\<rparr>
      = (5184000000 < now - 1767225600000)"
  proof (intro allI impI)
    fix n p and now :: int
    assume near: "\<bar>now - 1767225600000\<bar> < 9007199254740992"
    from isBranchStale_whole_days
           [where parseDate = ?pd and cfg = ?cfg and N = 60 and t = 1767225600000 and now = now
              and b = "\<lparr>name = n, protected = p,
                        commit = \<lparr>committed_date = ''2026-01-01T00:00:00Z''\<rparr>\<rparr>",
            OF _ _ near]
    show "isBranchStale ?pd ?cfg now
        \<lparr>name = n, protected = p, commit = \<lparr>committed_date = ''2026-01-01T00:00:00Z''\<rparr>\<rparr>
      = (5184000000 < now - 1767225600000)"
      by simp
  qed
  have live: "\<not> dryRun ?cfg" by simp
  have fetch: "getBranches ?host = Some (Inr ?bs, [(100, 1)])"
    unfolding getBranches_def by (subst getBranches_loop.simps) (simp add: perPage_def)
  have stale: "?bs = staleBranches ?pd ?clock ?cfg 0 ?bs"
    using old by simp
  have third: "2 < length ?bs" by simp
  have fails: "?del 2 (name (?bs ! 2)) = Inl (Status 403)" by simp
  from deletion_failure_recorded_and_loop_continues
         [where parseDate = ?pd and clock = ?clock and api_get = ?host and api_delete = ?del
            and cfg = ?cfg and stale = ?bs and i = 2, OF live fetch stale refl third fails]
  obtain out where
    run: "runCleaner ?pd ?clock ?host ?del ?cfg = Some out"
    and fin: "final out =
      deleteLoop ?cfg ?del (drop (Suc 2) ?bs)
        (deleteBranch ?cfg ?del (name (?bs ! 2))
          (deleteLoop ?cfg ?del (take 2 ?bs)
            (initial\<lparr>result := (result initial)
               \<lparr>branchesScanned := length ?bs, branchesEligible := length ?bs\<rparr>\<rparr>)))"
    by blast
  have "final out =
      \<lparr>result = \<lparr>branchesScanned = 5, branchesEligible = 5, branchesDeleted = 4,
                  branchesFailed = 1, failedBranches = [''branch#3''], success = False\<rparr>,
       deletedCount = 4, failedCount = 1,
       deleteCalls = [''branch#1'', ''branch#2'', ''branch#3'', ''branch#4'', ''branch#5'']\<rparr>"
    unfolding fin by (simp add: deleteBranch_def initial_def)
  moreover have "pagesRequested out = [(100, 1)]" "exitCode out = Some 2"
    using run [unfolded runCleaner_fetched [OF fetch]] old
    by (auto simp: deleteBranch_def initial_def)
  ultimately have "out = \<lparr>final =
             \<lparr>result = \<lparr>branchesScanned = 5, branchesEligible = 5, branchesDeleted = 4,
                         branchesFailed = 1, failedBranches = [''branch#3''], success = False\<rparr>,
              deletedCount = 4, failedCount = 1,
              deleteCalls = [''branch#1'', ''branch#2'', ''branch#3'', ''branch#4'', ''branch#5'']\<rparr>,
           pagesRequested = [(100, 1)], exitCode = Some 2\<rparr>"
    by (cases out) simp
  with run show ?thesis by simp
qed

text \<open>
  C9. In a run that is not a dry run and whose listing succeeded, processing a branch adds
  one to exactly one of the deleted and failed counts; at the end the deleted and failed
  counts add up to the eligible count, which is the number of eligible branches, and the
  failed names are as many as the failed count: they are the names whose delete request
  failed, in the order of processing.
\<close>

theorem deleted_plus_failed_eq_eligible:
  assumes "\<not> dryRun cfg" and "getBranches api_get = Some (Inr branches, requested)"
  shows "(\<forall>n st.
            (branchesDeleted (result (deleteBranch cfg api_delete n st)) = branchesDeleted (result st) + 1
               \<and> branchesFailed (result (deleteBranch cfg api_delete n st)) = branchesFailed (result st))
          \<or> (branchesDeleted (result (deleteBranch cfg api_delete n st)) = branchesDeleted (result st)
               \<and> branchesFailed (result (deleteBranch cfg api_delete n st)) = branchesFailed (result st) + 1))
     \<and> (\<exists>out. runCleaner parseDate clock api_get api_delete cfg = Some out
          \<and> branchesEligible (result (final out)) = length (staleBranches parseDate clock cfg 0 branches)
          \<and> deleteCalls (final out) = map name (staleBranches parseDate clock cfg 0 branches)
          \<and> branchesDeleted (result (final out)) + branchesFailed (result (final out))
              = branchesEligible (result (final out))
          \<and> length (failedBranches (result (final out))) = branchesFailed (result (final out))
          \<and> failedBranches (result (final out))
              = failedNames api_delete 0 (map name (staleBranches parseDate clock cfg 0 branches)))"
proof -
  have le: "length (failedNames api_delete 0 (map name (staleBranches parseDate clock cfg 0 branches)))
              \<le> length (staleBranches parseDate clock cfg 0 branches)"
    using length_failedNames [of api_delete 0 "map name (staleBranches parseDate clock cfg 0 branches)"]
    by simp
  have run: "\<exists>out. runCleaner parseDate clock api_get api_delete cfg = Some out
          \<and> branchesEligible (result (final out)) = length (staleBranches parseDate clock cfg 0 branches)
          \<and> deleteCalls (final out) = map name (staleBranches parseDate clock cfg 0 branches)
          \<and> branchesDeleted (result (final out)) + branchesFailed (result (final out))
              = branchesEligible (result (final out))
          \<and> length (failedBranches (result (final out))) = branchesFailed (result (final out))
          \<and> failedBranches (result (final out))
              = failedNames api_delete 0 (map name (staleBranches parseDate clock cfg 0 branches))"
    using le
    by (simp add: runCleaner_fetched [OF assms(2)] deleteLoop_live [OF assms(1)] Let_def initial_def)
  from deleteBranch_one_count [OF assms(1)] run show ?thesis
    by blast
qed

text \<open>
  Five branches scanned, three of them eligible, and the first and third delete requests
  fail: one deleted and two failed, and the failed names in the order of processing.
\<close>

theorem deleted_plus_failed_eq_eligible_witness:
  "runCleaner (map_of [(''2026-01-01T00:00:00Z'', 1767225600000)]) (\<lambda>k. 1793664000000 + int k)
     (\<lambda>per_page page.
        if page = 1
        then Inr [\<lparr>name = ''feat/a'', protected = False,
                    commit = \<lparr>committed_date = ''2026-01-01T00:00:00Z''\<rparr>\<rparr>,
                  \<lparr>name = ''main'', protected = False,
                    commit = \<lparr>committed_date = ''2026-01-01T00:00:00Z''\<rparr>\<rparr>,
                  \<lparr>name = ''feat/b'', protected = False,
                    commit = \<lparr>committed_date = ''2026-01-01T00:00:00Z''\<rparr>\<rparr>,
                  \<lparr>name = ''release'', protected = True,
                    commit = \<lparr>committed_date = ''2026-01-01T00:00:00Z''\<rparr>\<rparr>,
                  \<lparr>name = ''feat/c'', protected = False,
                    commit = \<lparr>committed_date = ''2026-01-01T00:00:00Z''\<rparr>\<rparr>]
        else Inl NoResponse)
     (\<lambda>k n. if k = 0 \<or> k = 2 then Inl NoResponse else Inr ())
     \<lparr>projectId = ''42'', mainBranch = ''main'', staleDays = Num 60, dryRun = False,
       excludedBranches = []\<rparr>
   = Some \<lparr>final =
             \<lparr>result = \<lparr>branchesScanned = 5, branchesEligible = 3, branchesDeleted = 1,
                         branchesFailed = 2, failedBranches = [''feat/a'', ''feat/c''],
                         success = False\<rparr>,
              deletedCount = 1, failedCount = 2,
              deleteCalls = [''feat/a'', ''feat/b'', ''feat/c'']\<rparr>,
           pagesRequested = [(100, 1)], exitCode = Some 2\<rparr>"
proof -
  let ?pd = "map_of [(''2026-01-01T00:00:00Z'', 1767225600000::int)]"
  let ?clock = "\<lambda>k. 1793664000000 + int k"
  let ?bs = "[\<lparr>name = ''feat/a'', protected = False,
                    commit = \<lparr>committed_date = ''2026-01-01T00:00:00Z''\<rparr>\<rparr>,
                  \<lparr>name = ''main'', protected = False,
                    commit = \<lparr>committed_date = ''2026-01-01T00:00:00Z''\<rparr>\<rparr>,
                  \<lparr>name = ''feat/b'', protected = False,
                    commit = \<lparr>committed_date = ''2026-01-01T00:00:00Z''\<rparr>\<rparr>,
                  \<lparr>name = ''release'', protected = True,
                    commit = \<lparr>committed_date = ''2026-01-01T00:00:00Z''\<rparr>\<rparr>,
                  \<lparr>name = ''feat/c'', protected = False,
                    commit = \<lparr>committed_date = ''2026-01-01T00:00:00Z''\<rparr>\<rparr>]"
  let ?host = "\<lambda>per_page page :: nat.
                 if page = 1 then Inr ?bs else (Inl NoResponse :: http_error + branch list)"
  let ?del = "\<lambda>(k::nat) (n::string).
                if k = 0 \<or> k = 2 then Inl NoResponse else (Inr () :: http_error + unit)"
  let ?cfg = "\<lparr>projectId = ''42'', mainBranch = ''main'', staleDays = Num 60, dryRun = False,
                excludedBranches = []\<rparr>"
  have old: "\<forall>n p now. \<bar>now - 1767225600000\<bar> < 9007199254740992 \<longrightarrow>
      isBranchStale ?pd ?cfg now
        \<lparr>name = n, protected = p, commit = \<lparr>committed_date = ''2026-01-01T00:00:00Z''\<rparr>\<rparr>
      = (5184000000 < now - 1767225600000)"
  proof (intro allI impI)
    fix n p and now :: int
    assume near: "\<bar>now - 1767225600000\<bar> < 9007199254740992"
    from isBranchStale_whole_days
           [where parseDate = ?pd and cfg = ?cfg and N = 60 and t = 1767225600000 and now = now
              and b = "\<lparr>name = n, protected = p,
                        commit = \<lparr>committed_date = ''2026-01-01T00:00:00Z''\<rparr>\<rparr>",
            OF _ _ near]
    show "isBranchStale ?pd ?cfg now
        \<lparr>name = n, protected = p, commit = \<lparr>committed_date = ''2026-01-01T00:00:00Z''\<rparr>\<rparr>
      = (5184000000 < now - 1767225600000)"
      by simp
  qed
  have live: "\<not> dryRun ?cfg" by simp
  have fetch: "getBranches ?host = Some (Inr ?bs, [(100, 1)])"
    unfolding getBranches_def by (subst getBranches_loop.simps) (simp add: perPage_def)
  from deleted_plus_failed_eq_eligible
         [where parseDate = ?pd and clock = ?clock and api_get = ?host and api_delete = ?del
            and cfg = ?cfg, OF live fetch]
  obtain out where run: "runCleaner ?pd ?clock ?host ?del ?cfg = Some out"
    by blast
  have "out = \<lparr>final =
             \<lparr>result = \<lparr>branchesScanned = 5, branchesEligible = 3, branchesDeleted = 1,
                         branchesFailed = 2, failedBranches = [''feat/a'', ''feat/c''],
                         success = False\<rparr>,
              deletedCount = 1, failedCount = 2,
              deleteCalls = [''feat/a'', ''feat/b'', ''feat/c'']\<rparr>,
           pagesRequested = [(100, 1)], exitCode = Some 2\<rparr>"
    using run [unfolded runCleaner_fetched [OF fetch]] old
    by (auto simp: deleteBranch_def initial_def)
  with run show ?thesis by simp
qed

end
